theory Spec2Isabelle
  imports Complex_Main "HOL-Library.Log_Nat"
begin

section \<open>Numbers\<close>

text \<open>
  The program computes with JavaScript numbers, which are the values of IEEE 754 binary64.
  A \<open>jsnum\<close> is NaN, one of the two infinities, or a finite number given by its exact
  rational value. Every arithmetic operation of the language computes the exact result and
  rounds it to the nearest binary64 value, ties to the even significand (\<open>round64\<close>); the
  operations on the special values follow the language definition. The one thing that is
  not modelled is the sign of zero: \<open>Fin 0\<close> stands for both zeros, and a division by zero
  takes the divisor as \<open>+0\<close>.
\<close>

datatype jsnum = NaN | NInf | Fin rat | PInf

text \<open>Rounding of a rational to the nearest integer, ties to the even one.\<close>

definition round_even :: "rat \<Rightarrow> int" where
  "round_even x =
     (let f = \<lfloor>x\<rfloor>; d = x - of_int f
      in if d < 1 / 2 then f else if 1 / 2 < d then f + 1 else if even f then f else f + 1)"

text \<open>The binary logarithm of a positive rational, rounded down.\<close>

definition ilog2 :: "rat \<Rightarrow> int" where
  "ilog2 x = (if 1 \<le> x then bitlen \<lfloor>x\<rfloor> - 1 else - bitlen (\<lceil>1 / x\<rceil> - 1))"

text \<open>
  The binary64 values near a positive rational \<open>a\<close> are the multiples of \<open>ulp a\<close>: the
  significand has 53 bits and the exponent is at least -1022 (below \<open>2 powi (- 1022)\<close>
  lie the subnormal numbers, multiples of \<open>2 powi (- 1074)\<close>). \<open>nearest a\<close> is the
  multiple that rounding selects; a result of \<open>2 powi 1024\<close> or more overflows to an
  infinity.
\<close>

definition expo :: "rat \<Rightarrow> int" where
  "expo a = max (ilog2 a) (- 1022)"

definition ulp :: "rat \<Rightarrow> rat" where
  "ulp a = 2 powi (expo a - 52)"

definition nearest :: "rat \<Rightarrow> rat" where
  "nearest a = of_int (round_even (a / ulp a)) * ulp a"

definition round64 :: "rat \<Rightarrow> jsnum" where
  "round64 x =
     (if x = 0 then Fin 0
      else if 2 powi 1024 \<le> nearest \<bar>x\<bar> then (if 0 < x then PInf else NInf)
      else Fin (if 0 < x then nearest \<bar>x\<bar> else - nearest \<bar>x\<bar>))"

text \<open>
  A \<open>jsnum\<close> that a JavaScript number can hold: a finite one is a binary64 value.
  \<open>finite_number\<close> excludes NaN and the infinities as well.
\<close>

definition is_double :: "jsnum \<Rightarrow> bool" where
  "is_double v = (case v of Fin r \<Rightarrow> round64 r = Fin r | _ \<Rightarrow> True)"

definition finite_number :: "jsnum \<Rightarrow> bool" where
  "finite_number v = (case v of Fin r \<Rightarrow> round64 r = Fin r | _ \<Rightarrow> False)"

fun jneg :: "jsnum \<Rightarrow> jsnum" where
  "jneg NaN = NaN"
| "jneg NInf = PInf"
| "jneg (Fin a) = Fin (- a)"
| "jneg PInf = NInf"

fun jadd :: "jsnum \<Rightarrow> jsnum \<Rightarrow> jsnum" where
  "jadd NaN _ = NaN"
| "jadd _ NaN = NaN"
| "jadd (Fin a) (Fin b) = round64 (a + b)"
| "jadd PInf NInf = NaN"
| "jadd NInf PInf = NaN"
| "jadd PInf _ = PInf"
| "jadd _ PInf = PInf"
| "jadd NInf _ = NInf"
| "jadd _ NInf = NInf"

text \<open>\<open>a - b\<close> is \<open>a + (- b)\<close>, also in binary64.\<close>

definition jsub :: "jsnum \<Rightarrow> jsnum \<Rightarrow> jsnum" where
  "jsub a b = jadd a (jneg b)"

fun jmul :: "jsnum \<Rightarrow> jsnum \<Rightarrow> jsnum" where
  "jmul NaN _ = NaN"
| "jmul _ NaN = NaN"
| "jmul (Fin a) (Fin b) = round64 (a * b)"
| "jmul (Fin a) PInf = (if a = 0 then NaN else if 0 < a then PInf else NInf)"
| "jmul (Fin a) NInf = (if a = 0 then NaN else if 0 < a then NInf else PInf)"
| "jmul PInf (Fin b) = (if b = 0 then NaN else if 0 < b then PInf else NInf)"
| "jmul NInf (Fin b) = (if b = 0 then NaN else if 0 < b then NInf else PInf)"
| "jmul PInf PInf = PInf"
| "jmul NInf NInf = PInf"
| "jmul PInf NInf = NInf"
| "jmul NInf PInf = NInf"

text \<open>Division: a non-zero number over zero is an infinity, zero over zero is NaN.\<close>

fun jdiv :: "jsnum \<Rightarrow> jsnum \<Rightarrow> jsnum" where
  "jdiv NaN _ = NaN"
| "jdiv _ NaN = NaN"
| "jdiv (Fin a) (Fin b) =
     (if b = 0 then (if a = 0 then NaN else if 0 < a then PInf else NInf)
      else round64 (a / b))"
| "jdiv (Fin a) PInf = Fin 0"
| "jdiv (Fin a) NInf = Fin 0"
| "jdiv PInf (Fin b) = (if 0 \<le> b then PInf else NInf)"
| "jdiv NInf (Fin b) = (if 0 \<le> b then NInf else PInf)"
| "jdiv PInf PInf = NaN"
| "jdiv PInf NInf = NaN"
| "jdiv NInf PInf = NaN"
| "jdiv NInf NInf = NaN"

text \<open>The comparisons \<open>a < b\<close> and \<open>a <= b\<close>: false as soon as one side is NaN.\<close>

fun jlt :: "jsnum \<Rightarrow> jsnum \<Rightarrow> bool" where
  "jlt NaN _ = False"
| "jlt _ NaN = False"
| "jlt (Fin a) (Fin b) = (a < b)"
| "jlt NInf NInf = False"
| "jlt NInf _ = True"
| "jlt _ NInf = False"
| "jlt PInf _ = False"
| "jlt _ PInf = True"

fun jle :: "jsnum \<Rightarrow> jsnum \<Rightarrow> bool" where
  "jle NaN _ = False"
| "jle _ NaN = False"
| "jle (Fin a) (Fin b) = (a \<le> b)"
| "jle NInf _ = True"
| "jle _ PInf = True"
| "jle PInf _ = False"
| "jle _ NInf = False"

text \<open>
  \<open>Math.max\<close> and \<open>Math.min\<close> of two arguments, NaN if either argument is NaN, and
  \<open>Math.abs\<close>.
\<close>

fun Math_max :: "jsnum \<Rightarrow> jsnum \<Rightarrow> jsnum" where
  "Math_max NaN _ = NaN"
| "Math_max _ NaN = NaN"
| "Math_max a b = (if jlt a b then b else a)"

fun Math_min :: "jsnum \<Rightarrow> jsnum \<Rightarrow> jsnum" where
  "Math_min NaN _ = NaN"
| "Math_min _ NaN = NaN"
| "Math_min a b = (if jlt b a then b else a)"

fun Math_abs :: "jsnum \<Rightarrow> jsnum" where
  "Math_abs NaN = NaN"
| "Math_abs NInf = PInf"
| "Math_abs (Fin a) = Fin \<bar>a\<bar>"
| "Math_abs PInf = PInf"

text \<open>
  \<open>v || 0\<close> where \<open>v\<close> is a number or \<open>undefined\<close>: \<open>undefined\<close>, NaN and 0 are
  falsy and give 0.
\<close>

fun or_zero :: "jsnum option \<Rightarrow> jsnum" where
  "or_zero None = Fin 0"
| "or_zero (Some NaN) = Fin 0"
| "or_zero (Some v) = v"

text \<open>The number literal \<open>0.1\<close> is the binary64 value nearest to one tenth.\<close>

definition one_tenth :: jsnum where
  "one_tenth = round64 (1 / 10)"

section \<open>Lap Time Normalizer: parsing\<close>

text \<open>
  Strings are lists of 8-bit characters. \<open>parseInt(s, 10)\<close> and \<open>parseFloat(s)\<close> follow
  the language definition: leading white space is skipped, an optional sign is read, and
  the longest prefix that is a decimal literal gives the value, rounded to binary64; when
  there is no such prefix the result is NaN. Trailing characters are ignored.
\<close>

definition is_ws :: "char \<Rightarrow> bool" where
  "is_ws c = (c \<in> set [CHR 0x09, CHR 0x0A, CHR 0x0B, CHR 0x0C, CHR 0x0D, CHR '' '', CHR 0xA0])"

definition is_digit :: "char \<Rightarrow> bool" where
  "is_digit c = (c \<in> set ''0123456789'')"

definition digit_val :: "char \<Rightarrow> nat" where
  "digit_val c = of_char c - 48"

definition digits_val :: "string \<Rightarrow> nat" where
  "digits_val ds = foldl (\<lambda>a c. 10 * a + digit_val c) 0 ds"

text \<open>An optional sign: the factor it stands for and the rest of the string.\<close>

fun read_sign :: "string \<Rightarrow> rat \<times> string" where
  "read_sign [] = (1, [])"
| "read_sign (c # cs) =
     (if c = CHR ''-'' then (- 1, cs) else if c = CHR ''+'' then (1, cs) else (1, c # cs))"

definition parseInt10 :: "string \<Rightarrow> jsnum" where
  "parseInt10 s =
     (let (sg, u) = read_sign (dropWhile is_ws s);
          ds = takeWhile is_digit u
      in if ds = [] then NaN else round64 (sg * of_nat (digits_val ds)))"

text \<open>The exponent part \<open>e\<close>, optional sign, digits; absent or incomplete, it counts as 0.\<close>

definition read_exponent :: "string \<Rightarrow> int" where
  "read_exponent s =
     (case s of
        [] \<Rightarrow> 0
      | c # cs \<Rightarrow>
          if c = CHR ''e'' \<or> c = CHR ''E'' then
            (let (sg, u) = read_sign cs; ds = takeWhile is_digit u
             in if ds = [] then 0
                else if sg < 0 then - int (digits_val ds) else int (digits_val ds))
          else 0)"

definition scale10 :: "rat \<Rightarrow> int \<Rightarrow> rat" where
  "scale10 x e = (if 0 \<le> e then x * 10 ^ nat e else x / 10 ^ nat (- e))"

definition parseFloat :: "string \<Rightarrow> jsnum" where
  "parseFloat s =
     (let (sg, u) = read_sign (dropWhile is_ws s) in
      if take 8 u = ''Infinity'' then (if sg < 0 then NInf else PInf)
      else
        let ip = takeWhile is_digit u;
            r1 = dropWhile is_digit u;
            has_dot = (r1 \<noteq> [] \<and> hd r1 = CHR ''.'');
            fp = (if has_dot then takeWhile is_digit (tl r1) else []);
            r2 = (if has_dot then dropWhile is_digit (tl r1) else r1)
        in if ip = [] \<and> fp = [] then NaN
           else round64 (sg * scale10 (of_nat (digits_val ip)
                                       + of_nat (digits_val fp) / 10 ^ length fp)
                                      (read_exponent r2)))"

text \<open>\<open>s.split(c)\<close>: the pieces of \<open>s\<close> between the occurrences of \<open>c\<close>.\<close>

fun split_on :: "char \<Rightarrow> string \<Rightarrow> string list" where
  "split_on c [] = [[]]"
| "split_on c (x # xs) =
     (if x = c then [] # split_on c xs
      else (case split_on c xs of [] \<Rightarrow> [[x]] | p # ps \<Rightarrow> (x # p) # ps))"

text \<open>
  \<open>lapTimeToMs\<close>: the empty string gives 0; a string with exactly one colon is read as
  minutes and seconds; any other string is read as seconds.
\<close>

definition lapTimeToMs :: "string \<Rightarrow> jsnum" where
  "lapTimeToMs timeStr =
     (if timeStr = [] then Fin 0
      else
        let parts = split_on CHR '':'' timeStr in
        if length parts = 2 then
          (let minutes = parseInt10 (parts ! 0);
               seconds = parseFloat (parts ! 1)
           in jmul (jadd (jmul minutes (Fin 60)) seconds) (Fin 1000))
        else jmul (parseFloat timeStr) (Fin 1000))"

text \<open>
  The specification calls this function \<open>parseTime\<close> and gives it two outcomes, a number
  of milliseconds or a FormatError. The body of \<open>lapTimeToMs\<close> has no \<open>throw\<close>: every
  call returns.
\<close>

datatype error = FormatError

definition parseTime :: "string \<Rightarrow> error + jsnum" where
  "parseTime text = Inr (lapTimeToMs text)"

text \<open>The number that the digits \<open>ip\<close>, a point and the digits \<open>fp\<close> denote.\<close>

definition decimal_val :: "string \<Rightarrow> string \<Rightarrow> rat" where
  "decimal_val ip fp = of_nat (digits_val ip) + of_nat (digits_val fp) / 10 ^ length fp"

text \<open>
  What \<open>lapTimeToMs\<close> computes from \<open>m\<close> minutes and \<open>s\<close> seconds, and from \<open>s\<close> seconds
  alone, when these are exact decimal values: each of them is rounded, and so is every
  product and sum.
\<close>

definition minutes_seconds_ms :: "rat \<Rightarrow> rat \<Rightarrow> jsnum" where
  "minutes_seconds_ms m s = jmul (jadd (jmul (round64 m) (Fin 60)) (round64 s)) (Fin 1000)"

definition seconds_ms :: "rat \<Rightarrow> jsnum" where
  "seconds_ms s = jmul (round64 s) (Fin 1000)"

section \<open>Data model\<close>

text \<open>
  The interfaces of the program as records. Several interfaces share field names
  (\<open>lap\<close>, \<open>position\<close>, \<open>driverId\<close>, \<open>timeInMs\<close>); each record prefixes its fields with
  an abbreviation of its name. Lap numbers and positions are integers, times are
  numbers of the language (milliseconds).
\<close>

record LapData =
  ld_driverId :: string
  ld_lap :: int
  ld_position :: int
  ld_time :: string
  ld_timeInMs :: jsnum

record LapTiming =
  lt_lap :: int
  lt_timings :: "LapData list"

record ProcessedLap =
  pl_lap :: int
  pl_position :: int
  pl_timeInMs :: jsnum
  pl_cumulativeTimeInMs :: jsnum
  pl_progressPerLap :: jsnum
  pl_speedFactor :: jsnum

record ProcessedLapData =
  pd_driverId :: string
  pd_laps :: "ProcessedLap list"

record PitStop =
  ps_driverId :: string
  ps_lap :: int
  ps_stop :: int
  ps_time :: string
  ps_duration :: string
  ps_durationInMs :: jsnum

datatype RaceEventType = lap_complete | pitstop | overtake | dnf | fastest_lap

record EventData =
  position :: "int option"
  previousPosition :: "int option"
  overtakenDriverId :: "string option"
  lapTime :: "jsnum option"
  pitDuration :: "jsnum option"
  dnfReason :: "string option"

record RaceEvent =
  ev_type :: RaceEventType
  ev_lap :: int
  ev_timeInMs :: jsnum
  ev_driverId :: string
  ev_data :: EventData

record DnfInfo =
  dnf_lap :: int
  dnf_reason :: string

record FastestLap =
  fl_driverId :: string
  fl_lap :: int
  fl_time :: string
  fl_timeInMs :: jsnum

definition no_data :: EventData where
  "no_data = \<lparr>position = None, previousPosition = None, overtakenDriverId = None,
               lapTime = None, pitDuration = None, dnfReason = None\<rparr>"

text \<open>
  A \<open>Map\<close> whose entries are iterated is an association list in insertion order:
  \<open>set\<close> on a present key replaces the value in place, on a new key it appends.
\<close>

fun map_set :: "'k \<Rightarrow> 'v \<Rightarrow> ('k \<times> 'v) list \<Rightarrow> ('k \<times> 'v) list" where
  "map_set k v [] = [(k, v)]"
| "map_set k v ((k', v') # m) = (if k' = k then (k, v) # m else (k', v') # map_set k v m)"

text \<open>
  \<open>xs.sort(compareFn)\<close>. The engine sorts an array of fewer than 64 elements by insertion
  from the left: each element \<open>x\<close> goes into the sorted prefix before the elements \<open>y\<close>
  with \<open>compareFn(x, y) < 0\<close> (a comparator result of NaN counts as 0, so it is not
  less than 0). \<open>sort_insert\<close> puts \<open>x\<close> behind the last element of the prefix that it
  does not go before. When \<open>compareFn(x, y) < 0\<close> is a consistent order this is the
  stable sort, which is what the language prescribes; for an inconsistent comparator the
  language leaves the order to the engine.
\<close>

definition sort_insert :: "('a \<Rightarrow> 'a \<Rightarrow> jsnum) \<Rightarrow> 'a \<Rightarrow> 'a list \<Rightarrow> 'a list" where
  "sort_insert cmp x ys =
     rev (dropWhile (\<lambda>y. jlt (cmp x y) (Fin 0)) (rev ys))
     @ x # rev (takeWhile (\<lambda>y. jlt (cmp x y) (Fin 0)) (rev ys))"

definition Array_sort :: "('a \<Rightarrow> 'a \<Rightarrow> jsnum) \<Rightarrow> 'a list \<Rightarrow> 'a list" where
  "Array_sort cmp xs = foldl (\<lambda>sorted x. sort_insert cmp x sorted) [] xs"

section \<open>Lap Time Normalizer: the lap series\<close>

text \<open>The sum and the count of the lap times that are greater than 0, over all drivers.\<close>

definition totals_step :: "LapData \<Rightarrow> jsnum \<times> jsnum \<Rightarrow> jsnum \<times> jsnum" where
  "totals_step timing st =
     (let (totalLapTime, lapCount) = st
      in if jlt (Fin 0) (ld_timeInMs timing)
         then (jadd totalLapTime (ld_timeInMs timing), jadd lapCount (Fin 1))
         else (totalLapTime, lapCount))"

definition lap_time_totals :: "LapTiming list \<Rightarrow> jsnum \<times> jsnum" where
  "lap_time_totals lapTimings =
     fold (\<lambda>lapTiming. fold totals_step (lt_timings lapTiming)) lapTimings (Fin 0, Fin 0)"

definition averageLapTime :: "LapTiming list \<Rightarrow> jsnum" where
  "averageLapTime lapTimings =
     (let (totalLapTime, lapCount) = lap_time_totals lapTimings
      in if jlt (Fin 0) lapCount then jdiv totalLapTime lapCount else Fin 90000)"

text \<open>\<open>Math.max(0.5, Math.min(1.5, speedFactor))\<close>.\<close>

definition clamp_speed :: "jsnum \<Rightarrow> jsnum" where
  "clamp_speed speedFactor = Math_max (Fin (1 / 2)) (Math_min (Fin (3 / 2)) speedFactor)"

text \<open>
  The laps of one driver: the walk over the lap records with the running cumulative
  time. A lap record without a timing of the driver is skipped.
\<close>

fun driver_laps :: "string \<Rightarrow> jsnum \<Rightarrow> jsnum \<Rightarrow> LapTiming list \<Rightarrow> ProcessedLap list" where
  "driver_laps driverId avg cumulativeTime [] = []"
| "driver_laps driverId avg cumulativeTime (lapTiming # rest) =
     (case find (\<lambda>t. ld_driverId t = driverId) (lt_timings lapTiming) of
        None \<Rightarrow> driver_laps driverId avg cumulativeTime rest
      | Some driverTiming \<Rightarrow>
          (let cumulativeTime' = jadd cumulativeTime (ld_timeInMs driverTiming);
               speedFactor = jdiv avg (ld_timeInMs driverTiming)
           in \<lparr>pl_lap = ld_lap driverTiming,
               pl_position = ld_position driverTiming,
               pl_timeInMs = ld_timeInMs driverTiming,
               pl_cumulativeTimeInMs = cumulativeTime',
               pl_progressPerLap = Fin 100,
               pl_speedFactor = clamp_speed speedFactor\<rparr>
              # driver_laps driverId avg cumulativeTime' rest))"

definition calculateDriverLapData :: "LapTiming list \<Rightarrow> string list \<Rightarrow> ProcessedLapData list" where
  "calculateDriverLapData lapTimings driverIds =
     map (\<lambda>driverId.
            \<lparr>pd_driverId = driverId,
             pd_laps = driver_laps driverId (averageLapTime lapTimings) (Fin 0) lapTimings\<rparr>)
         driverIds"

section \<open>Event Detector\<close>

definition by_time :: "RaceEvent \<Rightarrow> RaceEvent \<Rightarrow> jsnum" where
  "by_time a b = jsub (ev_timeInMs a) (ev_timeInMs b)"

definition lap_complete_step ::
  "LapData \<Rightarrow> RaceEvent list \<times> (string \<rightharpoonup> jsnum) \<Rightarrow> RaceEvent list \<times> (string \<rightharpoonup> jsnum)" where
  "lap_complete_step timing st =
     (let (events, cumulativeTimes) = st;
          prevTime = or_zero (cumulativeTimes (ld_driverId timing));
          currentTime = jadd prevTime (ld_timeInMs timing)
      in (events @ [\<lparr>ev_type = lap_complete, ev_lap = ld_lap timing,
                      ev_timeInMs = currentTime, ev_driverId = ld_driverId timing,
                      ev_data = no_data\<lparr>position := Some (ld_position timing),
                                        lapTime := Some (ld_timeInMs timing)\<rparr>\<rparr>],
          cumulativeTimes(ld_driverId timing \<mapsto> currentTime)))"

definition createLapCompleteEvents :: "LapTiming list \<Rightarrow> RaceEvent list" where
  "createLapCompleteEvents lapTimings =
     Array_sort by_time
       (fst (fold (\<lambda>lapTiming. fold lap_complete_step (lt_timings lapTiming))
                  lapTimings ([], Map.empty)))"

text \<open>The event of one pit stop, if the driver and the lap are found in the lap series.\<close>

definition pit_stop_event :: "ProcessedLapData list \<Rightarrow> PitStop \<Rightarrow> RaceEvent option" where
  "pit_stop_event processedLapData pitStop =
     (case find (\<lambda>d. pd_driverId d = ps_driverId pitStop) processedLapData of
        None \<Rightarrow> None
      | Some driverData \<Rightarrow>
          (case find (\<lambda>l. pl_lap l = ps_lap pitStop) (pd_laps driverData) of
             None \<Rightarrow> None
           | Some lapData \<Rightarrow>
               Some \<lparr>ev_type = pitstop, ev_lap = ps_lap pitStop,
                     ev_timeInMs = jsub (pl_cumulativeTimeInMs lapData)
                                        (jmul (pl_timeInMs lapData) one_tenth),
                     ev_driverId = ps_driverId pitStop,
                     ev_data = no_data\<lparr>pitDuration := Some (ps_durationInMs pitStop)\<rparr>\<rparr>))"

definition createPitStopEvents :: "PitStop list \<Rightarrow> ProcessedLapData list \<Rightarrow> RaceEvent list" where
  "createPitStopEvents pitStops processedLapData =
     Array_sort by_time (List.map_filter (pit_stop_event processedLapData) pitStops)"

text \<open>
  Overtakes. The state of the walk: the events so far, the position of every driver at
  the driver's previous timing, and the cumulative times. The first lap record of the
  input (index 0) only fills the state.
\<close>

type_synonym overtake_state = "RaceEvent list \<times> (string \<times> int) list \<times> (string \<rightharpoonup> jsnum)"

definition initial_step :: "LapData \<Rightarrow> overtake_state \<Rightarrow> overtake_state" where
  "initial_step timing st =
     (let (events, previousPositions, cumulativeTimes) = st
      in (events,
          map_set (ld_driverId timing) (ld_position timing) previousPositions,
          cumulativeTimes(ld_driverId timing \<mapsto> ld_timeInMs timing)))"

definition overtake_step :: "LapData \<Rightarrow> overtake_state \<Rightarrow> overtake_state" where
  "overtake_step timing st =
     (let (events, previousPositions, cumulativeTimes) = st;
          prevTime = or_zero (cumulativeTimes (ld_driverId timing));
          currentTime = jadd prevTime (ld_timeInMs timing);
          prevPosition = map_of previousPositions (ld_driverId timing);
          events' =
            (case prevPosition of
               None \<Rightarrow> events
             | Some p \<Rightarrow>
                 if ld_position timing < p then
                   (let overtakenDriver =
                          find (\<lambda>(_, pos). pos = ld_position timing) previousPositions
                    in events @
                       [\<lparr>ev_type = overtake, ev_lap = ld_lap timing,
                         ev_timeInMs = jsub currentTime (jmul (ld_timeInMs timing) (Fin (1 / 2))),
                         ev_driverId = ld_driverId timing,
                         ev_data = no_data\<lparr>position := Some (ld_position timing),
                                           previousPosition := Some p,
                                           overtakenDriverId := map_option fst overtakenDriver\<rparr>\<rparr>])
                 else events)
      in (events',
          map_set (ld_driverId timing) (ld_position timing) previousPositions,
          cumulativeTimes(ld_driverId timing \<mapsto> currentTime)))"

definition detectOvertakes :: "LapTiming list \<Rightarrow> RaceEvent list" where
  "detectOvertakes lapTimings =
     (case lapTimings of
        [] \<Rightarrow> Array_sort by_time []
      | first # rest \<Rightarrow>
          (let st0 = fold initial_step (lt_timings first) ([], [], Map.empty);
               st = fold (\<lambda>lapTiming. fold overtake_step (lt_timings lapTiming)) rest st0
           in Array_sort by_time (fst st)))"

text \<open>The event of one entry of the DNF map, if the driver has laps in the lap series.\<close>

definition dnf_event :: "ProcessedLapData list \<Rightarrow> string \<times> DnfInfo \<Rightarrow> RaceEvent option" where
  "dnf_event processedLapData entry =
     (let (driverId, dnfInfo) = entry in
      case find (\<lambda>d. pd_driverId d = driverId) processedLapData of
        None \<Rightarrow> None
      | Some driverData \<Rightarrow>
          if pd_laps driverData \<noteq> [] then
            Some \<lparr>ev_type = dnf, ev_lap = dnf_lap dnfInfo,
                  ev_timeInMs = pl_cumulativeTimeInMs (last (pd_laps driverData)),
                  ev_driverId = driverId,
                  ev_data = no_data\<lparr>dnfReason := Some (dnf_reason dnfInfo)\<rparr>\<rparr>
          else None)"

definition createDNFEvents ::
  "(string \<times> DnfInfo) list \<Rightarrow> ProcessedLapData list \<Rightarrow> RaceEvent list" where
  "createDNFEvents dnfs processedLapData =
     Array_sort by_time (List.map_filter (dnf_event processedLapData) dnfs)"

definition createFastestLapEvent ::
  "FastestLap option \<Rightarrow> ProcessedLapData list \<Rightarrow> RaceEvent option" where
  "createFastestLapEvent fastestLap processedLapData =
     (case fastestLap of
        None \<Rightarrow> None
      | Some fl \<Rightarrow>
          (case find (\<lambda>d. pd_driverId d = fl_driverId fl) processedLapData of
             None \<Rightarrow> None
           | Some driverData \<Rightarrow>
               (case find (\<lambda>l. pl_lap l = fl_lap fl) (pd_laps driverData) of
                  None \<Rightarrow> None
                | Some lapData \<Rightarrow>
                    Some \<lparr>ev_type = fastest_lap, ev_lap = fl_lap fl,
                          ev_timeInMs = pl_cumulativeTimeInMs lapData,
                          ev_driverId = fl_driverId fl,
                          ev_data = no_data\<lparr>lapTime := Some (fl_timeInMs fl)\<rparr>\<rparr>)))"

text \<open>The events of the five kinds, one block after the other, before the final sort.\<close>

definition merged_events ::
  "LapTiming list \<Rightarrow> PitStop list \<Rightarrow> ProcessedLapData list \<Rightarrow> (string \<times> DnfInfo) list
     \<Rightarrow> FastestLap option \<Rightarrow> RaceEvent list" where
  "merged_events lapTimings pitStops processedLapData dnfs fastestLap =
     createLapCompleteEvents lapTimings
     @ createPitStopEvents pitStops processedLapData
     @ detectOvertakes lapTimings
     @ createDNFEvents dnfs processedLapData
     @ (case createFastestLapEvent fastestLap processedLapData of
          None \<Rightarrow> []
        | Some fastestLapEvent \<Rightarrow> [fastestLapEvent])"

definition buildEventTimeline ::
  "LapTiming list \<Rightarrow> PitStop list \<Rightarrow> ProcessedLapData list \<Rightarrow> (string \<times> DnfInfo) list
     \<Rightarrow> FastestLap option \<Rightarrow> RaceEvent list" where
  "buildEventTimeline lapTimings pitStops processedLapData dnfs fastestLap =
     Array_sort by_time (merged_events lapTimings pitStops processedLapData dnfs fastestLap)"

text \<open>The place of an event type in the order in which the event log is assembled.\<close>

fun category_rank :: "RaceEventType \<Rightarrow> nat" where
  "category_rank lap_complete = 0"
| "category_rank pitstop = 1"
| "category_rank overtake = 2"
| "category_rank dnf = 3"
| "category_rank fastest_lap = 4"

section \<open>Frame Generator\<close>

text \<open>
  Of a driver and of the race metadata the generator reads one field each; the
  descriptive fields (names, nationality, colour; season, circuit, date) are carried
  through unchanged and are left out of the records.
\<close>

record Driver =
  driverId :: string

record RaceMetadata =
  totalLaps :: int

record DriverState =
  ds_driverId :: string
  ds_position :: int
  ds_progress :: jsnum
  ds_lap :: int
  ds_isInPit :: bool
  ds_isDNF :: bool
  ds_hasFastestLap :: bool
  ds_gapToLeader :: jsnum
  ds_lastLapTime :: jsnum

record AnimationFrame =
  fr_timeInMs :: jsnum
  fr_drivers :: "DriverState list"
  fr_events :: "RaceEvent list"

record RaceTimeline =
  metadata :: RaceMetadata
  drivers :: "Driver list"
  totalDurationMs :: jsnum
  frames :: "AnimationFrame list"
  events :: "RaceEvent list"

definition DEFAULT_FRAME_INTERVAL :: jsnum where
  "DEFAULT_FRAME_INTERVAL = Fin 500"

definition race_duration_step ::
  "LapData \<Rightarrow> jsnum \<times> (string \<rightharpoonup> jsnum) \<Rightarrow> jsnum \<times> (string \<rightharpoonup> jsnum)" where
  "race_duration_step timing st =
     (let (maxTime, driverTimes) = st;
          currentTime = or_zero (driverTimes (ld_driverId timing));
          newTime = jadd currentTime (ld_timeInMs timing)
      in (if jlt maxTime newTime then newTime else maxTime,
          driverTimes(ld_driverId timing \<mapsto> newTime)))"

definition calculateRaceDuration :: "LapTiming list \<Rightarrow> jsnum" where
  "calculateRaceDuration lapTimings =
     (if lapTimings = [] then Fin 0
      else fst (fold (\<lambda>lapTiming. fold race_duration_step (lt_timings lapTiming))
                     lapTimings (Fin 0, Map.empty)))"

text \<open>
  \<open>interpolatePosition\<close>: the first lap whose cumulative time is not before the target
  time, with the progress within that lap; past the last lap, the last lap at 100.
\<close>

fun find_lap :: "jsnum \<Rightarrow> jsnum \<Rightarrow> ProcessedLap list \<Rightarrow> (int \<times> jsnum \<times> int) option" where
  "find_lap targetTimeMs prevCumulativeTime [] = None"
| "find_lap targetTimeMs prevCumulativeTime (currentLap # rest) =
     (if jle targetTimeMs (pl_cumulativeTimeInMs currentLap) then
        (let lapStartTime = prevCumulativeTime;
             lapDuration = pl_timeInMs currentLap;
             timeIntoLap = jsub targetTimeMs lapStartTime;
             progress = Math_min (Fin 100)
                          (Math_max (Fin 0) (jmul (jdiv timeIntoLap lapDuration) (Fin 100)))
         in Some (pl_lap currentLap, progress, pl_position currentLap))
      else find_lap targetTimeMs (pl_cumulativeTimeInMs currentLap) rest)"

definition interpolatePosition ::
  "ProcessedLapData \<Rightarrow> jsnum \<Rightarrow> int \<Rightarrow> int \<times> jsnum \<times> int" where
  "interpolatePosition processedData targetTimeMs totalLaps' =
     (let laps = pd_laps processedData in
      if laps = [] then (0, Fin 0, 0)
      else
        (case find_lap targetTimeMs (Fin 0) laps of
           Some r \<Rightarrow> r
         | None \<Rightarrow> (pl_lap (last laps), Fin 100, pl_position (last laps))))"

text \<open>
  \<open>calculateLeaderTimes\<close>: for every lap record that has a timing in position 1, the
  running sum of the lap times of these position-1 timings, stored under the lap number.
\<close>

definition leader_step :: "LapTiming \<Rightarrow> (int \<rightharpoonup> jsnum) \<times> jsnum \<Rightarrow> (int \<rightharpoonup> jsnum) \<times> jsnum" where
  "leader_step lapTiming st =
     (let (leaderTimes, cumulativeTime) = st in
      case find (\<lambda>t. ld_position t = 1) (lt_timings lapTiming) of
        None \<Rightarrow> (leaderTimes, cumulativeTime)
      | Some leaderTiming \<Rightarrow>
          (let cumulativeTime' = jadd cumulativeTime (ld_timeInMs leaderTiming)
           in (leaderTimes(lt_lap lapTiming \<mapsto> cumulativeTime'), cumulativeTime')))"

definition calculateLeaderTimes :: "LapTiming list \<Rightarrow> (int \<rightharpoonup> jsnum)" where
  "calculateLeaderTimes lapTimings = fst (fold leader_step lapTimings (Map.empty, Fin 0))"

definition createPitStopMap :: "PitStop list \<Rightarrow> (string \<rightharpoonup> int set)" where
  "createPitStopMap pitStops =
     fold (\<lambda>pitStop m.
             m(ps_driverId pitStop \<mapsto>
                 insert (ps_lap pitStop)
                   (case m (ps_driverId pitStop) of None \<Rightarrow> {} | Some laps \<Rightarrow> laps)))
          pitStops Map.empty"

text \<open>
  The comparator of the driver states. Positions are integers; their difference is given
  as the number it is.
\<close>

definition by_position :: "DriverState \<Rightarrow> DriverState \<Rightarrow> jsnum" where
  "by_position a b =
     (if ds_position a = 0 then Fin 1
      else if ds_position b = 0 then Fin (- 1)
      else Fin (of_int (ds_position a - ds_position b)))"

definition driver_state ::
  "jsnum \<Rightarrow> ProcessedLapData list \<Rightarrow> (string \<rightharpoonup> int set) \<Rightarrow> (string \<times> DnfInfo) list
     \<Rightarrow> string option \<Rightarrow> (int \<rightharpoonup> jsnum) \<Rightarrow> int \<Rightarrow> Driver \<Rightarrow> DriverState" where
  "driver_state timeMs processedLapData pitStopMap dnfs fastestLapDriverId leaderTimes
       totalLaps' driver =
     (case find (\<lambda>d. pd_driverId d = driverId driver) processedLapData of
        None \<Rightarrow>
          \<lparr>ds_driverId = driverId driver, ds_position = 0, ds_progress = Fin 0, ds_lap = 0,
            ds_isInPit = False, ds_isDNF = False, ds_hasFastestLap = False,
            ds_gapToLeader = Fin 0, ds_lastLapTime = Fin 0\<rparr>
      | Some driverData \<Rightarrow>
          if pd_laps driverData = [] then
            \<lparr>ds_driverId = driverId driver, ds_position = 0, ds_progress = Fin 0, ds_lap = 0,
              ds_isInPit = False, ds_isDNF = False, ds_hasFastestLap = False,
              ds_gapToLeader = Fin 0, ds_lastLapTime = Fin 0\<rparr>
          else
            (let (lap, progress, position) = interpolatePosition driverData timeMs totalLaps';
                 isInPit = (case pitStopMap (driverId driver) of
                              None \<Rightarrow> False
                            | Some driverPitLaps \<Rightarrow>
                                lap \<in> driverPitLaps \<and> jlt (Fin 85) progress
                                \<and> jlt progress (Fin 100));
                 isDNF = (case map_of dnfs (driverId driver) of
                            None \<Rightarrow> False
                          | Some dnfInfo \<Rightarrow> dnf_lap dnfInfo \<le> lap);
                 hasFastestLap = (Some (driverId driver) = fastestLapDriverId);
                 leaderTime = or_zero (leaderTimes lap);
                 lapData = find (\<lambda>l. pl_lap l = lap) (pd_laps driverData);
                 driverTime = or_zero (map_option pl_cumulativeTimeInMs lapData);
                 gapToLeader = (if position = 1 then Fin 0
                                else Math_max (Fin 0) (jsub driverTime leaderTime));
                 lastLapTime = or_zero (map_option pl_timeInMs lapData)
             in \<lparr>ds_driverId = driverId driver, ds_position = position,
                 ds_progress = progress, ds_lap = lap, ds_isInPit = isInPit,
                 ds_isDNF = isDNF, ds_hasFastestLap = hasFastestLap,
                 ds_gapToLeader = gapToLeader, ds_lastLapTime = lastLapTime\<rparr>))"

definition generateFrame ::
  "jsnum \<Rightarrow> Driver list \<Rightarrow> ProcessedLapData list \<Rightarrow> (string \<rightharpoonup> int set) \<Rightarrow> RaceEvent list
     \<Rightarrow> (string \<times> DnfInfo) list \<Rightarrow> string option \<Rightarrow> (int \<rightharpoonup> jsnum) \<Rightarrow> int
     \<Rightarrow> AnimationFrame" where
  "generateFrame timeMs drivers' processedLapData pitStopMap events' dnfs
       fastestLapDriverId leaderTimes totalLaps' =
     (let driverStates =
            Array_sort by_position
              (map (driver_state timeMs processedLapData pitStopMap dnfs fastestLapDriverId
                      leaderTimes totalLaps') drivers');
          frameEvents =
            filter (\<lambda>event. jlt (Math_abs (jsub (ev_timeInMs event) timeMs))
                                 (jdiv DEFAULT_FRAME_INTERVAL (Fin 2)))
                   events'
      in \<lparr>fr_timeInMs = timeMs, fr_drivers = driverStates, fr_events = frameEvents\<rparr>)"

text \<open>
  The loop \<open>for (timeMs = 0; timeMs <= totalDurationMs; timeMs += frameInterval)\<close>. When
  the sum does not get past the duration (an interval that is negative, or too small to
  change the sum) the loop never ends; its result is then \<open>None\<close>.
\<close>

partial_function (option) frames_loop ::
  "(jsnum \<Rightarrow> AnimationFrame) \<Rightarrow> jsnum \<Rightarrow> jsnum \<Rightarrow> jsnum \<Rightarrow> AnimationFrame list
     \<Rightarrow> AnimationFrame list option" where
  "frames_loop frame_at duration frameInterval timeMs acc =
     (if jle timeMs duration
      then frames_loop frame_at duration frameInterval (jadd timeMs frameInterval)
             (acc @ [frame_at timeMs])
      else Some acc)"

declare frames_loop.simps [code]

definition generateRaceTimeline ::
  "RaceMetadata \<Rightarrow> Driver list \<Rightarrow> LapTiming list \<Rightarrow> ProcessedLapData list \<Rightarrow> PitStop list
     \<Rightarrow> RaceEvent list \<Rightarrow> (string \<times> DnfInfo) list \<Rightarrow> string option \<Rightarrow> jsnum
     \<Rightarrow> RaceTimeline option" where
  "generateRaceTimeline metadata' drivers' lapTimings processedLapData pitStops events'
       dnfs fastestLapDriverId frameInterval =
     (let duration = calculateRaceDuration lapTimings;
          leaderTimes = calculateLeaderTimes lapTimings;
          pitStopMap = createPitStopMap pitStops
      in map_option
           (\<lambda>fs. \<lparr>metadata = metadata', drivers = drivers', totalDurationMs = duration,
                   frames = fs, events = events'\<rparr>)
           (frames_loop
              (\<lambda>timeMs. generateFrame timeMs drivers' processedLapData pitStopMap events'
                           dnfs fastestLapDriverId leaderTimes (totalLaps metadata'))
              duration frameInterval (Fin 0) []))"

text \<open>The frames of a timeline to which an event is attached.\<close>

definition frames_with :: "RaceEvent \<Rightarrow> RaceTimeline \<Rightarrow> AnimationFrame list" where
  "frames_with event timeline = filter (\<lambda>f. event \<in> set (fr_events f)) (frames timeline)"

section \<open>Playback Engine\<close>

record PlaybackState =
  isPlaying :: bool
  currentTimeMs :: jsnum
  speed :: jsnum
  currentFrameIndex :: int

text \<open>
  The state of the hook: the playback state with all updates applied; the playback state
  of the last render, which is the one that the callbacks of that render have captured;
  and the timestamp of the previous tick. The timeline is an argument of every operation
  that reads it; \<open>None\<close> is the hook without a timeline.
\<close>

record HookState =
  playbackState :: PlaybackState
  rendered :: PlaybackState
  lastTimestampRef :: "jsnum option"

definition initial_playback :: PlaybackState where
  "initial_playback =
     \<lparr>isPlaying = False, currentTimeMs = Fin 0, speed = Fin 1, currentFrameIndex = 0\<rparr>"

definition initial_hook :: HookState where
  "initial_hook =
     \<lparr>playbackState = initial_playback, rendered = initial_playback, lastTimestampRef = None\<rparr>"

fun first_after :: "jsnum \<Rightarrow> nat \<Rightarrow> AnimationFrame list \<Rightarrow> nat option" where
  "first_after timeMs i [] = None"
| "first_after timeMs i (f # fs) =
     (if jlt timeMs (fr_timeInMs f) then Some i else first_after timeMs (Suc i) fs)"

definition findFrameIndex :: "RaceTimeline option \<Rightarrow> jsnum \<Rightarrow> int" where
  "findFrameIndex timeline timeMs =
     (case timeline of
        None \<Rightarrow> 0
      | Some tline \<Rightarrow>
          if frames tline = [] then 0
          else (case first_after timeMs 0 (frames tline) of
                  Some i \<Rightarrow> max 0 (int i - 1)
                | None \<Rightarrow> int (length (frames tline)) - 1))"

definition play :: "PlaybackState \<Rightarrow> PlaybackState" where
  "play prev = prev\<lparr>isPlaying := True\<rparr>"

definition pause :: "PlaybackState \<Rightarrow> PlaybackState" where
  "pause prev = prev\<lparr>isPlaying := False\<rparr>"

text \<open>
  \<open>restart\<close> does not update the previous state: it sets a new state, whose speed is the
  speed of the playback state that the callback has captured.
\<close>

definition restart :: "PlaybackState \<Rightarrow> PlaybackState" where
  "restart captured =
     \<lparr>isPlaying = False, currentTimeMs = Fin 0, speed = speed captured, currentFrameIndex = 0\<rparr>"

definition setSpeed :: "jsnum \<Rightarrow> PlaybackState \<Rightarrow> PlaybackState" where
  "setSpeed speed' prev = prev\<lparr>speed := speed'\<rparr>"

definition seekTo :: "RaceTimeline option \<Rightarrow> jsnum \<Rightarrow> PlaybackState \<Rightarrow> PlaybackState" where
  "seekTo timeline timeMs prev =
     (case timeline of
        None \<Rightarrow> prev
      | Some tline \<Rightarrow>
          (let clampedTime = Math_max (Fin 0) (Math_min timeMs (totalDurationMs tline));
               frameIndex = findFrameIndex timeline clampedTime
           in prev\<lparr>currentTimeMs := clampedTime, currentFrameIndex := frameIndex\<rparr>))"

definition seekToPercent :: "RaceTimeline option \<Rightarrow> jsnum \<Rightarrow> PlaybackState \<Rightarrow> PlaybackState" where
  "seekToPercent timeline percent prev =
     (case timeline of
        None \<Rightarrow> prev
      | Some tline \<Rightarrow>
          seekTo timeline (jmul (jdiv percent (Fin 100)) (totalDurationMs tline)) prev)"

text \<open>
  One tick of the animation loop at wall-clock time \<open>timestamp\<close>: the clock advances by
  the elapsed time, times the speed, times 20, and stops at the end of the timeline.
  \<open>advanced_time\<close> is the \<open>newTimeMs\<close> of the tick.
\<close>

definition advanced_time :: "jsnum \<Rightarrow> HookState \<Rightarrow> jsnum" where
  "advanced_time timestamp h =
     (let last' = (case lastTimestampRef h of None \<Rightarrow> timestamp | Some l \<Rightarrow> l);
          deltaMs = jsub timestamp last';
          prev = playbackState h
      in jadd (currentTimeMs prev) (jmul (jmul deltaMs (speed prev)) (Fin 20)))"

definition animate :: "RaceTimeline option \<Rightarrow> jsnum \<Rightarrow> HookState \<Rightarrow> HookState" where
  "animate timeline timestamp h =
     (case timeline of
        None \<Rightarrow> h
      | Some tline \<Rightarrow>
          (let prev = playbackState h;
               newTimeMs = advanced_time timestamp h
           in h\<lparr>playbackState :=
                 (if jle (totalDurationMs tline) newTimeMs then
                    prev\<lparr>isPlaying := False, currentTimeMs := totalDurationMs tline,
                         currentFrameIndex := int (length (frames tline)) - 1\<rparr>
                  else
                    prev\<lparr>currentTimeMs := newTimeMs,
                         currentFrameIndex := findFrameIndex timeline newTimeMs\<rparr>),
               lastTimestampRef := Some timestamp\<rparr>))"

text \<open>
  A render makes the playback state the captured one. After the render the effect on
  \<open>isPlaying\<close> runs if that field has changed: when playback starts with a timeline
  loaded, it clears the timestamp of the previous tick.
\<close>

definition render :: "RaceTimeline option \<Rightarrow> HookState \<Rightarrow> HookState" where
  "render timeline h =
     h\<lparr>rendered := playbackState h,
       lastTimestampRef :=
         (if isPlaying (playbackState h) \<and> \<not> isPlaying (rendered h) \<and> timeline \<noteq> None
          then None else lastTimestampRef h)\<rparr>"

text \<open>
  The operations of the hook as commands, with the renders and the ticks of the
  animation loop between them. In a sequence every command sees the playback state that
  the commands before it have left, and \<open>restart\<close> sees the state of the last render.
\<close>

datatype command =
  Play | Pause | Restart | SetSpeed jsnum | SeekTo jsnum | SeekToPercent jsnum
  | Tick jsnum | Render

fun perform :: "RaceTimeline option \<Rightarrow> HookState \<Rightarrow> command \<Rightarrow> HookState" where
  "perform timeline h Play = h\<lparr>playbackState := play (playbackState h)\<rparr>"
| "perform timeline h Pause = h\<lparr>playbackState := pause (playbackState h)\<rparr>"
| "perform timeline h Restart = h\<lparr>playbackState := restart (rendered h)\<rparr>"
| "perform timeline h (SetSpeed v) = h\<lparr>playbackState := setSpeed v (playbackState h)\<rparr>"
| "perform timeline h (SeekTo ms) = h\<lparr>playbackState := seekTo timeline ms (playbackState h)\<rparr>"
| "perform timeline h (SeekToPercent pct) =
     h\<lparr>playbackState := seekToPercent timeline pct (playbackState h)\<rparr>"
| "perform timeline h (Tick timestamp) = animate timeline timestamp h"
| "perform timeline h Render = render timeline h"

definition run :: "RaceTimeline option \<Rightarrow> command list \<Rightarrow> HookState \<Rightarrow> HookState" where
  "run timeline cmds h = foldl (perform timeline) h cmds"

text \<open>A number of the language other than NaN: an infinity or a binary64 value.\<close>

definition is_number :: "jsnum \<Rightarrow> bool" where
  "is_number v = (case v of NaN \<Rightarrow> False | Fin r \<Rightarrow> round64 r = Fin r | _ \<Rightarrow> True)"

section \<open>Conditions on the inputs and orders used in the statements\<close>

text \<open>
  The order of the event log: by time, and among events of the same time by the place
  of the event type in the assembly order.
\<close>

definition time_then_category :: "RaceEvent \<Rightarrow> RaceEvent \<Rightarrow> bool" where
  "time_then_category a b =
     (jlt (ev_timeInMs a) (ev_timeInMs b)
      \<or> (ev_timeInMs a = ev_timeInMs b
         \<and> category_rank (ev_type a) \<le> category_rank (ev_type b)))"

text \<open>Every lap time of the lap records is a finite number.\<close>

definition finite_lap_times :: "LapTiming list \<Rightarrow> bool" where
  "finite_lap_times lapTimings =
     (\<forall>lt\<in>set lapTimings. \<forall>t\<in>set (lt_timings lt). finite_number (ld_timeInMs t))"

text \<open>
  In a lap series, every lap time is a finite number and every cumulative time is a
  number other than NaN.
\<close>

definition number_series :: "ProcessedLapData list \<Rightarrow> bool" where
  "number_series processedLapData =
     (\<forall>d\<in>set processedLapData. \<forall>l\<in>set (pd_laps d).
        finite_number (pl_timeInMs l) \<and> is_number (pl_cumulativeTimeInMs l))"


text \<open>
  What the playback engine needs of a timeline, and what every timeline of the frame
  generator has: the duration is a number that is not negative, there is a first frame,
  its time is not after 0, and no frame time is after the duration (or NaN).
\<close>

definition sampled_timeline :: "RaceTimeline \<Rightarrow> bool" where
  "sampled_timeline tline =
     (jle (Fin 0) (totalDurationMs tline)
      \<and> frames tline \<noteq> []
      \<and> jle (fr_timeInMs (hd (frames tline))) (Fin 0)
      \<and> list_all (\<lambda>f. jle (fr_timeInMs f) (totalDurationMs tline)) (frames tline))"

text \<open>
  The frame that is current at the time \<open>timeMs\<close>: no frame up to it is after that time,
  and the next frame, if there is one, is.
\<close>

definition current_frame :: "RaceTimeline \<Rightarrow> jsnum \<Rightarrow> int \<Rightarrow> bool" where
  "current_frame tline timeMs i =
     (0 \<le> i \<and> i < int (length (frames tline))
      \<and> list_all (\<lambda>f. jle (fr_timeInMs f) timeMs) (take (nat i + 1) (frames tline))
      \<and> (if nat i + 1 < length (frames tline)
          then jlt timeMs (fr_timeInMs (frames tline ! (nat i + 1))) else True))"

section \<open>Example inputs\<close>

text \<open>
  Two drivers, two laps; \<open>b\<close> takes the lead from \<open>a\<close> on lap 2. After lap 2 the
  cumulative times are 162000 for \<open>a\<close> and 159000 for \<open>b\<close>.
\<close>

definition lead_change_example :: "LapTiming list" where
  "lead_change_example =
     [\<lparr>lt_lap = 1, lt_timings =
         [\<lparr>ld_driverId = ''a'', ld_lap = 1, ld_position = 1, ld_time = ''1:20.000'',
           ld_timeInMs = Fin 80000\<rparr>,
          \<lparr>ld_driverId = ''b'', ld_lap = 1, ld_position = 2, ld_time = ''1:21.000'',
           ld_timeInMs = Fin 81000\<rparr>]\<rparr>,
      \<lparr>lt_lap = 2, lt_timings =
         [\<lparr>ld_driverId = ''b'', ld_lap = 2, ld_position = 1, ld_time = ''1:18.000'',
           ld_timeInMs = Fin 78000\<rparr>,
          \<lparr>ld_driverId = ''a'', ld_lap = 2, ld_position = 2, ld_time = ''1:22.000'',
           ld_timeInMs = Fin 82000\<rparr>]\<rparr>]"

definition lead_change_timeline :: "jsnum \<Rightarrow> RaceTimeline option" where
  "lead_change_timeline frameInterval =
     (let series = calculateDriverLapData lead_change_example [''a'', ''b'']
      in generateRaceTimeline \<lparr>totalLaps = 2\<rparr> [\<lparr>driverId = ''a''\<rparr>, \<lparr>driverId = ''b''\<rparr>]
           lead_change_example series []
           (buildEventTimeline lead_change_example [] series [] None) [] None frameInterval)"

text \<open>
  The same race with a pit stop of \<open>b\<close> on lap 1, the retirement of \<open>a\<close> on lap 2 and
  the fastest lap of \<open>b\<close> on lap 2: the event log has events of all five kinds.
\<close>

definition lead_change_log :: "RaceEvent list" where
  "lead_change_log =
     buildEventTimeline lead_change_example
       [\<lparr>ps_driverId = ''b'', ps_lap = 1, ps_stop = 1, ps_time = ''14:05:11'',
         ps_duration = ''22.5'', ps_durationInMs = Fin 22500\<rparr>]
       (calculateDriverLapData lead_change_example [''a'', ''b''])
       [(''a'', \<lparr>dnf_lap = 2, dnf_reason = ''Engine''\<rparr>)]
       (Some \<lparr>fl_driverId = ''b'', fl_lap = 2, fl_time = ''1:18.000'', fl_timeInMs = Fin 78000\<rparr>)"


text \<open>
  One lap record with three drivers; the time text of \<open>b\<close> is not a number, and
  \<open>lapTimeToMs\<close> reads it as NaN.
\<close>

definition nan_lap_example :: "LapTiming list" where
  "nan_lap_example =
     [\<lparr>lt_lap = 1, lt_timings =
         [\<lparr>ld_driverId = ''a'', ld_lap = 1, ld_position = 1, ld_time = ''3.000'',
           ld_timeInMs = Fin 3000\<rparr>,
          \<lparr>ld_driverId = ''b'', ld_lap = 1, ld_position = 2, ld_time = ''bad'',
           ld_timeInMs = lapTimeToMs ''bad''\<rparr>,
          \<lparr>ld_driverId = ''c'', ld_lap = 1, ld_position = 3, ld_time = ''1.000'',
           ld_timeInMs = Fin 1000\<rparr>]\<rparr>]"


text \<open>One driver; the lap records arrive with lap 2 before lap 1.\<close>

definition reversed_laps_example :: "LapTiming list" where
  "reversed_laps_example =
     [\<lparr>lt_lap = 2, lt_timings =
         [\<lparr>ld_driverId = ''a'', ld_lap = 2, ld_position = 2, ld_time = ''1:20.000'',
           ld_timeInMs = Fin 80000\<rparr>]\<rparr>,
      \<lparr>lt_lap = 1, lt_timings =
         [\<lparr>ld_driverId = ''a'', ld_lap = 1, ld_position = 1, ld_time = ''1:20.000'',
           ld_timeInMs = Fin 80000\<rparr>]\<rparr>]"

text \<open>One driver, one lap of 2300 ms; the event log is the completion of that lap.\<close>

definition single_lap_example :: "LapTiming list" where
  "single_lap_example =
     [\<lparr>lt_lap = 1, lt_timings =
         [\<lparr>ld_driverId = ''a'', ld_lap = 1, ld_position = 1, ld_time = ''2.300'',
           ld_timeInMs = Fin 2300\<rparr>]\<rparr>]"

definition single_lap_event :: RaceEvent where
  "single_lap_event =
     \<lparr>ev_type = lap_complete, ev_lap = 1, ev_timeInMs = Fin 2300, ev_driverId = ''a'',
      ev_data = no_data\<lparr>position := Some 1, lapTime := Some (Fin 2300)\<rparr>\<rparr>"

definition single_lap_timeline :: "jsnum \<Rightarrow> RaceTimeline option" where
  "single_lap_timeline frameInterval =
     (let series = calculateDriverLapData single_lap_example [''a'']
      in generateRaceTimeline \<lparr>totalLaps = 1\<rparr> [\<lparr>driverId = ''a''\<rparr>] single_lap_example series []
           (buildEventTimeline single_lap_example [] series [] None) [] None frameInterval)"

text \<open>One driver, one lap of 1:20.300; the event log is the completion of that lap.\<close>

definition full_lap_example :: "LapTiming list" where
  "full_lap_example =
     [\<lparr>lt_lap = 1, lt_timings =
         [\<lparr>ld_driverId = ''a'', ld_lap = 1, ld_position = 1, ld_time = ''1:20.300'',
           ld_timeInMs = Fin 80300\<rparr>]\<rparr>]"

definition full_lap_event :: RaceEvent where
  "full_lap_event =
     \<lparr>ev_type = lap_complete, ev_lap = 1, ev_timeInMs = Fin 80300, ev_driverId = ''a'',
      ev_data = no_data\<lparr>position := Some 1, lapTime := Some (Fin 80300)\<rparr>\<rparr>"

definition full_lap_timeline :: "jsnum \<Rightarrow> RaceTimeline option" where
  "full_lap_timeline frameInterval =
     (let series = calculateDriverLapData full_lap_example [''a'']
      in generateRaceTimeline \<lparr>totalLaps = 1\<rparr> [\<lparr>driverId = ''a''\<rparr>] full_lap_example series []
           (buildEventTimeline full_lap_example [] series [] None) [] None frameInterval)"

text \<open>A timeline of 1000 ms with frames at 0, 500 and 1000.\<close>

definition example_timeline :: RaceTimeline where
  "example_timeline =
     \<lparr>metadata = \<lparr>totalLaps = 1\<rparr>, drivers = [], totalDurationMs = Fin 1000,
      frames = [\<lparr>fr_timeInMs = Fin 0, fr_drivers = [], fr_events = []\<rparr>,
                \<lparr>fr_timeInMs = Fin 500, fr_drivers = [], fr_events = []\<rparr>,
                \<lparr>fr_timeInMs = Fin 1000, fr_drivers = [], fr_events = []\<rparr>],
      events = []\<rparr>"

section \<open>Properties of the rounding to binary64\<close>

lemma round_even_bounds: "\<lfloor>x\<rfloor> \<le> round_even x" "round_even x \<le> \<lfloor>x\<rfloor> + 1"
  by (simp_all add: round_even_def Let_def)

lemma round_even_of_int [simp]: "round_even (of_int n) = n"
  by (simp add: round_even_def)

lemma round_even_mono: "x \<le> y \<Longrightarrow> round_even x \<le> round_even y"
proof -
  assume xy: "x \<le> y"
  then have f: "\<lfloor>x\<rfloor> \<le> \<lfloor>y\<rfloor>" by (rule floor_mono)
  show ?thesis
  proof (cases "\<lfloor>x\<rfloor> = \<lfloor>y\<rfloor>")
    case True
    then have "x - of_int \<lfloor>x\<rfloor> \<le> y - of_int \<lfloor>y\<rfloor>" using xy by simp
    then show ?thesis using True by (auto simp: round_even_def Let_def)
  next
    case False
    then have "\<lfloor>x\<rfloor> + 1 \<le> \<lfloor>y\<rfloor>" using f by simp
    then show ?thesis using round_even_bounds(2) [of x] round_even_bounds(1) [of y] by linarith
  qed
qed

lemma round_even_le: "x \<le> of_int n \<Longrightarrow> round_even x \<le> n"
  using round_even_mono [of x "of_int n"] by simp

lemma round_even_ge: "of_int n \<le> x \<Longrightarrow> n \<le> round_even x"
  using round_even_mono [of "of_int n" x] by simp

lemma ilog2_bounds:
  assumes "0 < x"
  shows "2 powi (ilog2 x) \<le> x" "x < 2 powi (ilog2 x + 1)"
proof -
  have "2 powi (ilog2 x) \<le> x \<and> x < 2 powi (ilog2 x + 1)"
  proof (cases "1 \<le> x")
    case True
    let ?n = "\<lfloor>x\<rfloor>"
    have n: "0 < ?n" using True by simp
    have b: "1 \<le> bitlen ?n" using n by (simp add: bitlen_alt_def)
    from bitlen_bounds [OF n] have lo: "2 ^ nat (bitlen ?n - 1) \<le> ?n"
      and hi: "?n < 2 ^ nat (bitlen ?n)" by auto
    have "(2::rat) powi (bitlen ?n - 1) = of_int (2 ^ nat (bitlen ?n - 1))"
      using b by (simp add: power_int_def)
    also have "\<dots> \<le> of_int ?n" using lo by (simp only: of_int_le_iff)
    also have "\<dots> \<le> x" by simp
    finally have 1: "2 powi (bitlen ?n - 1) \<le> x" .
    have "?n + 1 \<le> 2 ^ nat (bitlen ?n)" using hi by simp
    then have "(of_int (?n + 1) :: rat) \<le> of_int (2 ^ nat (bitlen ?n))"
      by (simp only: of_int_le_iff)
    moreover have "x < of_int (?n + 1)" using floor_correct [of x] by blast
    ultimately have "x < of_int (2 ^ nat (bitlen ?n))" by linarith
    then have 2: "x < 2 powi (bitlen ?n)" using b by (simp add: power_int_def)
    show ?thesis using True 1 2 by (simp add: ilog2_def)
  next
    case False
    let ?y = "1 / x"
    let ?m = "\<lceil>?y\<rceil>"
    have y: "1 < ?y" using False assms by simp
    then have m: "0 < ?m - 1" by (simp add: less_ceiling_iff)
    let ?k = "bitlen (?m - 1)"
    have k: "1 \<le> ?k" using m by (simp add: bitlen_alt_def)
    from bitlen_bounds [OF m] have lo: "2 ^ nat (?k - 1) \<le> ?m - 1"
      and hi: "?m - 1 < 2 ^ nat ?k" by auto
    have "?m \<le> 2 ^ nat ?k" using hi by simp
    then have "(of_int ?m :: rat) \<le> of_int (2 ^ nat ?k)" by (simp only: of_int_le_iff)
    moreover have "?y \<le> of_int ?m" by (rule le_of_int_ceiling)
    ultimately have "?y \<le> of_int (2 ^ nat ?k)" by (rule order_trans [rotated])
    then have "?y \<le> 2 ^ nat ?k" by simp
    then have "1 \<le> x * 2 ^ nat ?k" using assms by (simp add: field_simps)
    then have 1: "2 powi (- ?k) \<le> x"
      using k by (simp add: power_int_def field_simps)
    have "(of_int (2 ^ nat (?k - 1)) :: rat) \<le> of_int (?m - 1)"
      using lo by (simp only: of_int_le_iff)
    moreover have "of_int (?m - 1) < ?y" using ceiling_correct [of ?y] by linarith
    ultimately have "of_int (2 ^ nat (?k - 1)) < ?y" by (rule le_less_trans)
    then have "2 ^ nat (?k - 1) < ?y" by simp
    then have xi: "x < inverse (2 ^ nat (?k - 1))" using assms by (simp add: field_simps)
    have pe: "(2::rat) powi (- ?k + 1) = inverse (2 ^ nat (?k - 1))"
    proof -
      have "(2::rat) powi (- ?k + 1) = 2 powi (- (?k - 1))" by simp
      also have "\<dots> = inverse (2 powi (?k - 1))" by (rule power_int_minus)
      also have "\<dots> = inverse (2 ^ nat (?k - 1))"
        using k by (simp add: power_int_nonneg_exp)
      finally show ?thesis .
    qed
    have 2: "x < 2 powi (- ?k + 1)" using xi by (simp only: pe)
    show ?thesis using False 1 2 by (simp add: ilog2_def)
  qed
  then show "2 powi (ilog2 x) \<le> x" "x < 2 powi (ilog2 x + 1)" by auto
qed

lemma p2_pos [simp]: "0 < (2::rat) powi k"
  by simp

lemma p2_le: "m \<le> n \<Longrightarrow> (2::rat) powi m \<le> 2 powi n"
  by (rule power_int_increasing) simp_all

lemma p2_lt: "m < n \<Longrightarrow> (2::rat) powi m < 2 powi n"
  by (rule power_int_strict_increasing) simp_all

lemma p2_lt_D: "(2::rat) powi m < 2 powi n \<Longrightarrow> m < n"
  using p2_le [of n m] by (cases "m < n") auto

lemma p2_le_D: "(2::rat) powi m \<le> 2 powi n \<Longrightarrow> m \<le> n"
  using p2_lt [of n m] by (cases "m \<le> n") auto

lemma p2_add: "(2::rat) powi (m + n) = 2 powi m * 2 powi n"
  by (rule power_int_add) simp

lemma p2_diff: "(2::rat) powi (m - n) = 2 powi m / 2 powi n"
  by (rule power_int_diff) simp

lemma p2_cong: "m = n \<Longrightarrow> (2::rat) powi m = 2 powi n"
  by simp

lemma p2_nat: "0 \<le> k \<Longrightarrow> (2::rat) powi k = of_int (2 ^ nat k)"
  by (simp add: power_int_nonneg_exp)

lemma ilog2_unique:
  assumes "0 < x" "2 powi k \<le> x" "x < 2 powi (k + 1)"
  shows "ilog2 x = k"
proof -
  have "2 powi k < (2::rat) powi (ilog2 x + 1)"
    using assms(2) ilog2_bounds(2) [OF assms(1)] by (rule le_less_trans)
  then have 1: "k < ilog2 x + 1" by (rule p2_lt_D)
  have "2 powi (ilog2 x) < (2::rat) powi (k + 1)"
    using ilog2_bounds(1) [OF assms(1)] assms(3) by (rule le_less_trans)
  then have 2: "ilog2 x < k + 1" by (rule p2_lt_D)
  show ?thesis using 1 2 by simp
qed

lemma ilog2_mono:
  assumes "0 < x" "x \<le> y"
  shows "ilog2 x \<le> ilog2 y"
proof -
  have y: "0 < y" using assms by simp
  have "2 powi (ilog2 x) \<le> x" by (rule ilog2_bounds(1) [OF assms(1)])
  also have "x \<le> y" by (rule assms(2))
  also have "y < 2 powi (ilog2 y + 1)" by (rule ilog2_bounds(2) [OF y])
  finally have "ilog2 x < ilog2 y + 1" by (rule p2_lt_D)
  then show ?thesis by simp
qed

lemma expo_ge: "- 1022 \<le> expo a"
  by (simp add: expo_def)

lemma expo_mono: "0 < x \<Longrightarrow> x \<le> y \<Longrightarrow> expo x \<le> expo y"
  using ilog2_mono [of x y] by (simp add: expo_def)

lemma expo_upper: "0 < a \<Longrightarrow> a < 2 powi (expo a + 1)"
proof -
  assume a: "0 < a"
  have "a < 2 powi (ilog2 a + 1)" by (rule ilog2_bounds(2) [OF a])
  also have "\<dots> \<le> 2 powi (expo a + 1)" by (rule p2_le) (simp add: expo_def)
  finally show ?thesis .
qed

lemma expo_lower: "0 < a \<Longrightarrow> - 1022 < expo a \<Longrightarrow> 2 powi (expo a) \<le> a"
proof -
  assume a: "0 < a" and e: "- 1022 < expo a"
  then have "expo a = ilog2 a" by (simp add: expo_def max_def split: if_splits)
  then show ?thesis using ilog2_bounds(1) [OF a] by simp
qed

lemma ulp_pos [simp]: "0 < ulp a"
  by (simp add: ulp_def)

lemma ulp_nonneg [simp]: "0 \<le> ulp a"
  by (simp add: ulp_def)

lemma ulp_neq_0 [simp]: "ulp a \<noteq> 0"
  by (simp add: ulp_def)

lemma ulp_times: "2 powi 52 * ulp a = 2 powi (expo a)" "2 powi 53 * ulp a = 2 powi (expo a + 1)"
proof -
  have e: "expo a = 52 + (expo a - 52)" "expo a + 1 = 53 + (expo a - 52)" by simp_all
  have "(2::rat) powi (52 + (expo a - 52)) = 2 powi 52 * 2 powi (expo a - 52)" by (rule p2_add)
  then show "2 powi 52 * ulp a = 2 powi (expo a)" unfolding ulp_def using e(1) by simp
  have "(2::rat) powi (53 + (expo a - 52)) = 2 powi 53 * 2 powi (expo a - 52)" by (rule p2_add)
  then have "(2::rat) powi (expo a + 1) = 2 powi 53 * 2 powi (expo a - 52)" by (simp only: e(2) [symmetric])
  then show "2 powi 53 * ulp a = 2 powi (expo a + 1)" unfolding ulp_def by (rule sym)
qed

lemma scaled_upper: "0 < a \<Longrightarrow> a / ulp a < 2 powi 53"
proof -
  assume a: "0 < a"
  have "a < 2 powi 53 * ulp a" using expo_upper [OF a] by (simp only: ulp_times)
  then show ?thesis by (simp add: pos_divide_less_eq)
qed

lemma scaled_lower: "0 < a \<Longrightarrow> - 1022 < expo a \<Longrightarrow> 2 powi 52 \<le> a / ulp a"
proof -
  assume a: "0 < a" and e: "- 1022 < expo a"
  have "2 powi 52 * ulp a \<le> a" using expo_lower [OF a e] by (simp only: ulp_times)
  then show ?thesis by (simp add: pos_le_divide_eq)
qed

lemma significand_upper: "0 < a \<Longrightarrow> round_even (a / ulp a) \<le> 2 ^ 53"
proof -
  assume a: "0 < a"
  have "a / ulp a \<le> of_int (2 ^ 53)" using scaled_upper [OF a] by simp
  then show ?thesis by (rule round_even_le)
qed

lemma significand_lower: "0 < a \<Longrightarrow> - 1022 < expo a \<Longrightarrow> 2 ^ 52 \<le> round_even (a / ulp a)"
proof -
  assume a: "0 < a" and e: "- 1022 < expo a"
  have "of_int (2 ^ 52) \<le> a / ulp a" using scaled_lower [OF a e] by simp
  then show ?thesis by (rule round_even_ge)
qed

lemma significand_nonneg: "0 < a \<Longrightarrow> 0 \<le> round_even (a / ulp a)"
proof -
  assume a: "0 < a"
  have "of_int 0 \<le> a / ulp a" using a by simp
  then show ?thesis by (rule round_even_ge)
qed

lemma nearest_nonneg: "0 < a \<Longrightarrow> 0 \<le> nearest a"
  using significand_nonneg [of a] by (simp add: nearest_def)

lemma nearest_upper: "0 < a \<Longrightarrow> nearest a \<le> 2 powi (expo a + 1)"
proof -
  assume a: "0 < a"
  have "(of_int (round_even (a / ulp a)) :: rat) \<le> of_int (2 ^ 53)"
    using significand_upper [OF a] by (simp only: of_int_le_iff)
  then have "of_int (round_even (a / ulp a)) * ulp a \<le> of_int (2 ^ 53) * ulp a"
    by (rule mult_right_mono) simp
  also have "of_int (2 ^ 53) * ulp a = 2 powi 53 * ulp a" by simp
  also have "\<dots> = 2 powi (expo a + 1)" by (rule ulp_times(2))
  finally show ?thesis unfolding nearest_def .
qed

lemma nearest_lower: "0 < a \<Longrightarrow> - 1022 < expo a \<Longrightarrow> 2 powi (expo a) \<le> nearest a"
proof -
  assume a: "0 < a" and e: "- 1022 < expo a"
  have "(2::rat) powi (expo a) = 2 powi 52 * ulp a" by (rule ulp_times(1) [symmetric])
  also have "\<dots> = of_int (2 ^ 52) * ulp a" by simp
  also have "\<dots> \<le> of_int (round_even (a / ulp a)) * ulp a"
  proof (rule mult_right_mono)
    show "(of_int (2 ^ 52) :: rat) \<le> of_int (round_even (a / ulp a))"
      using significand_lower [OF a e] by (simp only: of_int_le_iff)
  qed simp
  finally show ?thesis unfolding nearest_def .
qed

lemma nearest_mono:
  assumes "0 < a" "a \<le> b"
  shows "nearest a \<le> nearest b"
proof -
  have b: "0 < b" using assms by simp
  have le: "expo a \<le> expo b" by (rule expo_mono [OF assms])
  show ?thesis
  proof (cases "expo a = expo b")
    case True
    then have u: "ulp a = ulp b" by (simp add: ulp_def)
    have "a / ulp b \<le> b / ulp b" using assms(2) by (simp add: divide_right_mono)
    then have "round_even (a / ulp b) \<le> round_even (b / ulp b)" by (rule round_even_mono)
    then have "(of_int (round_even (a / ulp b)) :: rat) \<le> of_int (round_even (b / ulp b))"
      by (simp only: of_int_le_iff)
    then have "of_int (round_even (a / ulp b)) * ulp b \<le> of_int (round_even (b / ulp b)) * ulp b"
      by (rule mult_right_mono) simp
    then show ?thesis by (simp add: nearest_def u)
  next
    case False
    then have lt: "expo a + 1 \<le> expo b" using le by simp
    have e: "- 1022 < expo b" using expo_ge [of a] lt by simp
    have "nearest a \<le> 2 powi (expo a + 1)" by (rule nearest_upper [OF assms(1)])
    also have "\<dots> \<le> 2 powi (expo b)" by (rule p2_le [OF lt])
    also have "\<dots> \<le> nearest b" by (rule nearest_lower [OF b e])
    finally show ?thesis .
  qed
qed

lemma nearest_rep:
  assumes E: "- 1022 \<le> E" and m: "0 < m" "m \<le> 2 ^ 53"
  shows "nearest (of_int m * 2 powi (E - 52)) = of_int m * 2 powi (E - 52)"
proof -
  let ?r = "of_int m * (2::rat) powi (E - 52)"
  have r: "0 < ?r" using m(1) by simp
  have "\<exists>k. ?r / ulp ?r = of_int k"
  proof (cases "expo ?r \<le> E")
    case True
    have "(2::rat) powi (E - 52) / 2 powi (expo ?r - 52) = 2 powi ((E - 52) - (expo ?r - 52))"
      by (rule p2_diff [symmetric])
    also have "\<dots> = 2 powi (E - expo ?r)" by (rule p2_cong) simp
    also have "\<dots> = of_int (2 ^ nat (E - expo ?r))" using True by (simp add: p2_nat)
    finally have q: "(2::rat) powi (E - 52) / ulp ?r = of_int (2 ^ nat (E - expo ?r))"
      unfolding ulp_def .
    have "?r / ulp ?r = of_int m * ((2::rat) powi (E - 52) / ulp ?r)" by simp
    also have "\<dots> = of_int m * of_int (2 ^ nat (E - expo ?r))" by (simp only: q)
    also have "\<dots> = of_int (m * 2 ^ nat (E - expo ?r))" by simp
    finally show ?thesis by blast
  next
    case False
    then have e: "- 1022 < expo ?r" "E + 1 \<le> expo ?r" using E by simp_all
    have "(of_int m :: rat) \<le> of_int (2 ^ 53)" using m(2) by (simp only: of_int_le_iff)
    then have "?r \<le> of_int (2 ^ 53) * 2 powi (E - 52)" by (rule mult_right_mono) simp
    also have "of_int (2 ^ 53) * (2::rat) powi (E - 52) = 2 powi 53 * 2 powi (E - 52)" by simp
    also have "\<dots> = 2 powi (53 + (E - 52))" by (rule p2_add [symmetric])
    also have "\<dots> = 2 powi (E + 1)" by (rule p2_cong) simp
    also have "\<dots> \<le> 2 powi (expo ?r)" by (rule p2_le [OF e(2)])
    finally have "?r \<le> 2 powi (expo ?r)" .
    then have eq: "?r = 2 powi (expo ?r)" using expo_lower [OF r e(1)] by simp
    have "?r / ulp ?r = 2 powi (expo ?r) / 2 powi (expo ?r - 52)"
      unfolding ulp_def using eq by simp
    also have "\<dots> = 2 powi (expo ?r - (expo ?r - 52))" by (rule p2_diff [symmetric])
    also have "\<dots> = of_int (2 ^ 52)" by simp
    finally show ?thesis by blast
  qed
  then obtain k where k: "?r / ulp ?r = of_int k" by blast
  have "nearest ?r = of_int k * ulp ?r" by (simp add: nearest_def k)
  also have "\<dots> = (?r / ulp ?r) * ulp ?r" by (simp only: k)
  also have "\<dots> = ?r" by simp
  finally show ?thesis .
qed

lemma round64_minus: "round64 (- x) = jneg (round64 x)"
  by (simp add: round64_def)

lemma round64_pos:
  "0 < x \<Longrightarrow> round64 x = (if 2 powi 1024 \<le> nearest x then PInf else Fin (nearest x))"
  by (simp add: round64_def)

lemma round64_rep:
  assumes E: "- 1022 \<le> E" and m: "0 \<le> m" "m \<le> 2 ^ 53"
    and fin: "of_int m * 2 powi (E - 52) < (2::rat) powi 1024"
  shows "round64 (of_int m * 2 powi (E - 52)) = Fin (of_int m * 2 powi (E - 52))"
proof (cases "m = 0")
  case True
  then show ?thesis by (simp add: round64_def)
next
  case False
  then have m0: "0 < m" using m(1) by simp
  have r: "0 < of_int m * (2::rat) powi (E - 52)" using m0 by simp
  show ?thesis
    unfolding round64_pos [OF r] nearest_rep [OF E m0 m(2)] using fin by simp
qed

lemma round64_not_NaN [simp]: "round64 x \<noteq> NaN"
  by (simp add: round64_def)

lemma round64_0 [simp]: "round64 0 = Fin 0"
  by (simp add: round64_def)

lemma round64_nonneg:
  assumes "0 \<le> x"
  shows "round64 x = PInf \<or> (\<exists>r. round64 x = Fin r \<and> 0 \<le> r)"
proof (cases "x = 0")
  case True
  then show ?thesis by simp
next
  case False
  then have "0 < x" using assms by simp
  then show ?thesis using nearest_nonneg [of x] by (simp add: round64_pos)
qed

lemma round64_of_int:
  assumes "\<bar>n\<bar> \<le> 2 ^ 53"
  shows "round64 (of_int n) = Fin (of_int n)"
proof -
  have pos: "round64 (of_int k) = Fin (of_int k)" if "0 \<le> k" "k \<le> 2 ^ 53" for k :: int
  proof -
    have "(of_int k :: rat) \<le> of_int (2 ^ 53)" using that(2) by (simp only: of_int_le_iff)
    also have "\<dots> < 2 powi 1024" by simp
    finally have "of_int k * 2 powi (52 - 52) < (2::rat) powi 1024" by simp
    from round64_rep [OF _ that this] show ?thesis by simp
  qed
  show ?thesis
  proof (cases "0 \<le> n")
    case True
    then show ?thesis using pos [of n] assms by simp
  next
    case False
    then have "round64 (of_int (- n)) = Fin (of_int (- n))" using pos [of "- n"] assms by simp
    then have "jneg (round64 (of_int n)) = Fin (- of_int n)" by (simp add: round64_minus)
    then show ?thesis by (cases "round64 (of_int n)") simp_all
  qed
qed

lemma round64_numeral [simp]:
  "(numeral k :: int) \<le> 9007199254740992 \<Longrightarrow> round64 (numeral k) = Fin (numeral k)"
  using round64_of_int [of "numeral k"] by simp

lemma round64_neg_numeral [simp]:
  "(numeral k :: int) \<le> 9007199254740992 \<Longrightarrow> round64 (- numeral k) = Fin (- numeral k)"
  using round64_of_int [of "- numeral k"] by simp

lemma round64_1 [simp]: "round64 1 = Fin 1"
  using round64_of_int [of 1] by simp

lemma round64_neg_1 [simp]: "round64 (- 1) = Fin (- 1)"
  using round64_of_int [of "- 1"] by simp

lemma round64_idem:
  assumes "round64 x = Fin r"
  shows "round64 r = Fin r"
proof -
  have pos: "round64 (nearest a) = Fin (nearest a)" if a: "0 < a" and f: "nearest a < 2 powi 1024" for a
  proof -
    have "round64 (of_int (round_even (a / ulp a)) * 2 powi (expo a - 52))
          = Fin (of_int (round_even (a / ulp a)) * 2 powi (expo a - 52))"
      using f
      by (intro round64_rep expo_ge significand_nonneg [OF a] significand_upper [OF a])
        (simp add: nearest_def ulp_def)
    then show ?thesis by (simp add: nearest_def ulp_def)
  qed
  consider "x = 0" | "0 < x" | "x < 0" by linarith
  then show ?thesis
  proof cases
    case 1
    then show ?thesis using assms by simp
  next
    case 2
    then have "r = nearest x" "nearest x < 2 powi 1024"
      using assms by (simp_all add: round64_pos split: if_splits)
    then show ?thesis using pos [OF 2] by simp
  next
    case 3
    then have x: "0 < - x" by simp
    have "round64 (- x) = Fin (- r)" using assms by (simp add: round64_minus)
    then have "- r = nearest (- x)" "nearest (- x) < 2 powi 1024"
      using x by (simp_all add: round64_pos split: if_splits)
    then have "round64 (- r) = Fin (- r)" using pos [OF x] by simp
    then have "jneg (round64 r) = Fin (- r)" by (simp add: round64_minus)
    then show ?thesis by (cases "round64 r") simp_all
  qed
qed

lemma round64_mono:
  assumes "x \<le> y"
  shows "jle (round64 x) (round64 y)"
proof -
  have pos: "jle (round64 a) (round64 b)" if "0 < a" "a \<le> b" for a b
  proof -
    have b: "0 < b" using that by simp
    show ?thesis using nearest_mono [OF that] by (simp add: round64_pos that(1) b)
  qed
  have neg_swap: "jle (jneg u) (jneg v)" if "jle v u" for u v
    using that by (cases u; cases v) simp_all
  have zero_pos: "jle (Fin 0) (round64 b)" if "0 \<le> b" for b
    using round64_nonneg [OF that] by auto
  have neg_zero: "jle (round64 a) (Fin 0)" if "a \<le> 0" for a
  proof -
    have "jle (jneg (round64 (- a))) (jneg (Fin 0))"
      using zero_pos [of "- a"] that by (intro neg_swap) simp
    then show ?thesis by (simp add: round64_minus [symmetric])
  qed
  have trans0: "jle u w" if "jle u (Fin 0)" "jle (Fin 0) w" for u w
    using that by (cases u; cases w) simp_all
  consider "0 < x" | "x \<le> 0" "0 \<le> y" | "y < 0" using assms by linarith
  then show ?thesis
  proof cases
    case 1
    then show ?thesis using pos assms by simp
  next
    case 2
    then show ?thesis using trans0 [OF neg_zero zero_pos] by simp
  next
    case 3
    then have "jle (round64 (- y)) (round64 (- x))" using assms by (intro pos) simp_all
    then have "jle (jneg (round64 (- x))) (jneg (round64 (- y)))" by (rule neg_swap)
    then show ?thesis by (simp add: round64_minus [symmetric])
  qed
qed

lemma round64_grid:
  assumes "round64 x = Fin r"
  shows "\<exists>k. r = of_int k * 2 powi (- 1074)"
proof -
  have pos: "\<exists>k. nearest a = of_int k * 2 powi (- 1074)" for a
  proof -
    have "(2::rat) powi (expo a - 52) = 2 powi ((expo a + 1022) + (- 1074))"
      by (rule p2_cong) simp
    also have "\<dots> = 2 powi (expo a + 1022) * 2 powi (- 1074)" by (rule p2_add)
    also have "(2::rat) powi (expo a + 1022) = of_int (2 ^ nat (expo a + 1022))"
      using expo_ge [of a] by (intro p2_nat) simp
    finally have "nearest a
        = of_int (round_even (a / ulp a) * 2 ^ nat (expo a + 1022)) * 2 powi (- 1074)"
      by (simp add: nearest_def ulp_def)
    then show ?thesis by blast
  qed
  consider "x = 0" | "0 < x" | "x < 0" by linarith
  then show ?thesis
  proof cases
    case 1
    then have "r = of_int 0 * 2 powi (- 1074)" using assms by simp
    then show ?thesis by blast
  next
    case 2
    then have "r = nearest x" using assms by (simp add: round64_pos split: if_splits)
    then show ?thesis using pos by simp
  next
    case 3
    then have "r = - nearest (- x)" using assms by (simp add: round64_def split: if_splits)
    moreover obtain k where "nearest (- x) = of_int k * 2 powi (- 1074)" using pos by blast
    ultimately have "r = of_int (- k) * 2 powi (- 1074)" by simp
    then show ?thesis by blast
  qed
qed

lemma round_even_eqI:
  assumes "\<bar>y - of_int m\<bar> < 1 / 2 \<or> (\<bar>y - of_int m\<bar> = 1 / 2 \<and> even m)"
  shows "round_even y = m"
proof (cases "of_int m \<le> y")
  case True
  then have d: "y - of_int m \<le> 1 / 2" using assms by auto
  have f: "\<lfloor>y\<rfloor> = m" using True d by (intro floor_unique) simp_all
  show ?thesis using assms True by (auto simp: round_even_def f Let_def)
next
  case False
  then have d: "- (1 / 2) \<le> y - of_int m" "y < of_int m" using assms by auto
  have f: "\<lfloor>y\<rfloor> = m - 1" using d by (intro floor_unique) simp_all
  show ?thesis using assms False by (auto simp: round_even_def f Let_def)
qed

lemma expo_eqI:
  assumes "0 < x" "- 1022 \<le> e" "2 powi e \<le> x \<or> e = - 1022" "x < 2 powi (e + 1)"
  shows "expo x = e"
proof (cases "2 powi e \<le> x")
  case True
  then have "ilog2 x = e" using assms(1,4) by (intro ilog2_unique)
  then show ?thesis using assms(2) by (simp add: expo_def)
next
  case False
  then have e: "e = - 1022" using assms(3) by simp
  have "2 powi (ilog2 x) < (2::rat) powi (e + 1)"
    using ilog2_bounds(1) [OF assms(1)] assms(4) by (rule le_less_trans)
  then have "ilog2 x < e + 1" by (rule p2_lt_D)
  then show ?thesis using e by (simp add: expo_def)
qed

lemma round64_eqI:
  assumes "0 < x" "- 1022 \<le> e" "2 powi e \<le> x \<or> e = - 1022" "x < 2 powi (e + 1)"
    and m: "\<bar>x / 2 powi (e - 52) - of_int m\<bar> < 1 / 2
            \<or> (\<bar>x / 2 powi (e - 52) - of_int m\<bar> = 1 / 2 \<and> even m)"
    and fin: "of_int m * 2 powi (e - 52) < (2::rat) powi 1024"
    and r: "r = of_int m * 2 powi (e - 52)"
  shows "round64 x = Fin r"
proof -
  have e: "expo x = e" by (rule expo_eqI [OF assms(1-4)])
  have "round_even (x / 2 powi (e - 52)) = m" by (rule round_even_eqI [OF m])
  then have "nearest x = of_int m * 2 powi (e - 52)" by (simp add: nearest_def ulp_def e)
  then show ?thesis using fin r by (simp add: round64_pos [OF assms(1)])
qed

section \<open>Properties of the arithmetic and the comparisons\<close>

lemma jsub_Fin [simp]: "jsub (Fin a) (Fin b) = round64 (a - b)"
  by (simp add: jsub_def)

lemma jsub_special [simp]:
  "jsub NaN b = NaN" "jsub a NaN = NaN"
  "jsub PInf (Fin y) = PInf" "jsub NInf (Fin y) = NInf"
  "jsub (Fin x) PInf = NInf" "jsub (Fin x) NInf = PInf"
  "jsub PInf PInf = NaN" "jsub NInf NInf = NaN"
  "jsub PInf NInf = PInf" "jsub NInf PInf = NInf"
  by (cases b; cases a; simp add: jsub_def)+

lemma jle_trans: "jle a b \<Longrightarrow> jle b c \<Longrightarrow> jle a c"
  by (cases a; cases b; cases c) auto

lemma jlt_trans: "jlt a b \<Longrightarrow> jlt b c \<Longrightarrow> jlt a c"
  by (cases a; cases b; cases c) auto

lemma jle_jlt_trans: "jle a b \<Longrightarrow> jlt b c \<Longrightarrow> jlt a c"
  by (cases a; cases b; cases c) auto

lemma jlt_jle_trans: "jlt a b \<Longrightarrow> jle b c \<Longrightarrow> jlt a c"
  by (cases a; cases b; cases c) auto

lemma jlt_imp_jle: "jlt a b \<Longrightarrow> jle a b"
  by (cases a; cases b) auto

lemma jlt_irrefl [simp]: "\<not> jlt a a"
  by (cases a) auto

lemma not_jlt: "a \<noteq> NaN \<Longrightarrow> b \<noteq> NaN \<Longrightarrow> (\<not> jlt a b) = jle b a"
  by (cases a; cases b) auto

lemma jle_iff: "jle a b = (jlt a b \<or> (a = b \<and> a \<noteq> NaN))"
  by (cases a; cases b) auto

lemma jle_refl: "a \<noteq> NaN \<Longrightarrow> jle a a"
  by (cases a) auto

lemma jle_not_NaN: "jle a b \<Longrightarrow> a \<noteq> NaN \<and> b \<noteq> NaN"
  by (cases a; cases b) auto

lemma jlt_not_NaN: "jlt a b \<Longrightarrow> a \<noteq> NaN \<and> b \<noteq> NaN"
  by (cases a; cases b) auto

lemma is_number_simps [simp]:
  "is_number PInf" "is_number NInf" "\<not> is_number NaN"
  "is_number (Fin r) = (round64 r = Fin r)"
  by (simp_all add: is_number_def)

lemma finite_number_simps [simp]:
  "\<not> finite_number PInf" "\<not> finite_number NInf" "\<not> finite_number NaN"
  "finite_number (Fin r) = (round64 r = Fin r)"
  by (simp_all add: finite_number_def)

lemma is_number_not_NaN: "is_number v \<Longrightarrow> v \<noteq> NaN"
  by (cases v) simp_all

lemma finite_number_is_number: "finite_number v \<Longrightarrow> is_number v"
  by (cases v) simp_all

lemma finite_numberE:
  assumes "finite_number v"
  obtains r where "v = Fin r" "round64 r = Fin r"
  using assms by (cases v) simp_all

lemma is_number_round64 [simp]: "is_number (round64 x)"
  using round64_idem [of x] by (cases "round64 x") simp_all

lemma is_number_0 [simp]: "is_number (Fin 0)"
  by simp

lemma is_number_jadd:
  assumes "a \<noteq> NaN"
  shows "is_number (jadd a (Fin s))"
  using assms by (cases a) simp_all

lemma is_number_jsub:
  assumes "a \<noteq> NaN"
  shows "is_number (jsub a (Fin s))"
  using assms by (cases a) (simp_all add: jsub_def)

lemma or_zero_cases: "or_zero m = Fin 0 \<or> (m = Some (or_zero m) \<and> or_zero m \<noteq> NaN)"
  by (cases m rule: or_zero.cases) simp_all

lemma is_number_or_zero:
  assumes "\<And>v. m = Some v \<Longrightarrow> v \<noteq> NaN \<Longrightarrow> is_number v"
  shows "is_number (or_zero m)"
  using or_zero_cases [of m] assms by auto

lemma or_zero_not_NaN [simp]: "or_zero m \<noteq> NaN"
  using or_zero_cases [of m] by auto

text \<open>Two different binary64 values are at least the smallest positive one apart.\<close>

lemma double_gap:
  assumes "round64 a = Fin a" "round64 b = Fin b" "a < b"
  shows "a + 2 powi (- 1074) \<le> b"
proof -
  obtain k where k: "a = of_int k * 2 powi (- 1074)" using round64_grid [OF assms(1)] by blast
  obtain l where l: "b = of_int l * 2 powi (- 1074)" using round64_grid [OF assms(2)] by blast
  have "(of_int k :: rat) * 2 powi (- 1074) < of_int l * 2 powi (- 1074)"
    using assms(3) k l by simp
  then have "(of_int k :: rat) < of_int l" by (simp only: mult_less_cancel_right_pos p2_pos)
  then have "k + 1 \<le> l" by simp
  then have "(of_int (k + 1) :: rat) \<le> of_int l" by (simp only: of_int_le_iff)
  then have "of_int (k + 1) * (2::rat) powi (- 1074) \<le> of_int l * 2 powi (- 1074)"
    by (rule mult_right_mono) simp
  then show ?thesis unfolding k l by (simp add: algebra_simps)
qed

lemma round64_tiny: "round64 (2 powi (- 1074)) = Fin (2 powi (- 1074))"
proof -
  have "of_int 1 * 2 powi (- 1022 - 52) < (2::rat) powi 1024"
    using p2_lt [of "- 1074" 1024] by simp
  from round64_rep [OF _ _ _ this] show ?thesis by simp
qed

lemma round64_positive:
  assumes "2 powi (- 1074) \<le> x"
  shows "jlt (Fin 0) (round64 x)"
proof -
  have "jle (Fin (2 powi (- 1074))) (round64 x)"
    using round64_mono [OF assms] by (simp only: round64_tiny)
  moreover have "jlt (Fin 0) (Fin ((2::rat) powi (- 1074)))" by simp
  ultimately show ?thesis by (rule jlt_jle_trans [rotated])
qed

lemma round64_negative:
  assumes "x \<le> - (2 powi (- 1074))"
  shows "jlt (round64 x) (Fin 0)"
proof -
  have "jlt (Fin 0) (round64 (- x))" using assms by (intro round64_positive) simp
  then show ?thesis by (cases "round64 x") (simp_all add: round64_minus)
qed

lemma round64_nonneg_jle:
  assumes "0 \<le> x"
  shows "jle (Fin 0) (round64 x)"
  using round64_mono [OF assms] by simp

lemma round64_nonpos_jle:
  assumes "x \<le> 0"
  shows "jle (round64 x) (Fin 0)"
  using round64_mono [OF assms] by simp

text \<open>
  The difference of two numbers is less than 0 exactly when the first is less than the
  second: the difference of two different binary64 values does not round to 0.
\<close>

lemma jsub_negative_iff:
  assumes "is_number a" "is_number b"
  shows "jlt (jsub a b) (Fin 0) = jlt a b"
proof (cases a; cases b)
  fix x y
  assume ab: "a = Fin x" "b = Fin y"
  then have d: "round64 x = Fin x" "round64 y = Fin y" using assms by simp_all
  show ?thesis
  proof (cases "x < y")
    case True
    have "x - y \<le> - (2 powi (- 1074))" using double_gap [OF d True] by simp
    then show ?thesis using True ab by (simp add: round64_negative)
  next
    case False
    then have "jle (Fin 0) (round64 (x - y))" by (intro round64_nonneg_jle) simp
    then have "\<not> jlt (round64 (x - y)) (Fin 0)"
      by (cases "round64 (x - y)") auto
    then show ?thesis using False ab by simp
  qed
qed (use assms in \<open>simp_all add: jsub_def\<close>)

text \<open>Rounding does not take a number past a binary64 value of larger magnitude.\<close>

lemma round64_bounded:
  assumes "round64 r = Fin r" "\<bar>x\<bar> \<le> \<bar>r\<bar>"
  shows "\<exists>y. round64 x = Fin y \<and> \<bar>y\<bar> \<le> \<bar>r\<bar>"
proof -
  have a: "round64 \<bar>r\<bar> = Fin \<bar>r\<bar>"
    using assms(1) by (cases "0 \<le> r") (simp_all add: abs_if round64_minus)
  then have b: "round64 (- \<bar>r\<bar>) = Fin (- \<bar>r\<bar>)" by (simp add: round64_minus)
  have "jle (round64 x) (Fin \<bar>r\<bar>)"
    using round64_mono [of x "\<bar>r\<bar>"] assms(2) a by simp
  moreover have "jle (Fin (- \<bar>r\<bar>)) (round64 x)"
    using round64_mono [of "- \<bar>r\<bar>" x] assms(2) b by simp
  ultimately show ?thesis by (cases "round64 x") auto
qed

lemma finite_number_scaled:
  assumes "finite_number t" "\<bar>c\<bar> \<le> 1"
  shows "finite_number (jmul t (Fin c))"
proof -
  obtain r where r: "t = Fin r" "round64 r = Fin r" using assms(1) by (rule finite_numberE)
  have "\<bar>r * c\<bar> \<le> \<bar>r\<bar>" using assms(2) by (simp add: abs_mult mult_left_le)
  from round64_bounded [OF r(2) this] obtain y where y: "round64 (r * c) = Fin y" by blast
  then show ?thesis using round64_idem [OF y] r by simp
qed

lemma one_tenth_value: "one_tenth = Fin (3602879701896397 / 36028797018963968)"
  unfolding one_tenth_def
  by (rule round64_eqI [where e = "- 4" and m = 7205759403792794]) simp_all

lemma round64_half [simp]: "round64 (1 / 2) = Fin (1 / 2)"
  by (rule round64_eqI [where e = "- 1" and m = 4503599627370496]) simp_all

lemma round64_three_halves [simp]: "round64 (3 / 2) = Fin (3 / 2)"
  by (rule round64_eqI [where e = 0 and m = 6755399441055744]) simp_all

section \<open>Properties of the lap-time parser\<close>

lemma digit_not_special:
  assumes "is_digit c"
  shows "\<not> is_ws c" "c \<noteq> CHR '':''" "c \<noteq> CHR ''-''" "c \<noteq> CHR ''+''" "c \<noteq> CHR ''.''"
    "c \<noteq> CHR ''I''"
  using assms by (auto simp: is_digit_def is_ws_def)

lemma dot_not_digit: "\<not> is_digit CHR ''.''"
  by (simp add: is_digit_def)

lemma split_on_no_sep: "c \<notin> set s \<Longrightarrow> split_on c s = [s]"
  by (induction s) auto

lemma split_on_first: "c \<notin> set s \<Longrightarrow> split_on c (s @ c # r) = s # split_on c r"
  by (induction s) auto

lemma parseInt10_digits:
  assumes "\<forall>c\<in>set m. is_digit c" "m \<noteq> []"
  shows "parseInt10 m = round64 (of_nat (digits_val m))"
proof -
  obtain c cs where m: "m = c # cs" using assms(2) by (cases m) auto
  have c: "is_digit c" using assms(1) m by simp
  have ws: "dropWhile is_ws m = m" using c m digit_not_special(1) by simp
  have sg: "read_sign m = (1, m)" using c m digit_not_special(3,4) by simp
  have tw: "takeWhile is_digit m = m" using assms(1) by (simp add: takeWhile_eq_all_conv)
  show ?thesis using assms(2) by (simp add: parseInt10_def ws sg tw)
qed

lemma parseFloat_decimal:
  assumes "\<forall>c\<in>set ip. is_digit c" "ip \<noteq> []" "\<forall>c\<in>set fp. is_digit c"
  shows "parseFloat (ip @ CHR ''.'' # fp) = round64 (decimal_val ip fp)"
proof -
  let ?s = "ip @ CHR ''.'' # fp"
  obtain c cs where m: "ip = c # cs" using assms(2) by (cases ip) auto
  have c: "is_digit c" using assms(1) m by simp
  have ws: "dropWhile is_ws ?s = ?s" using c m digit_not_special(1) by simp
  have sg: "read_sign ?s = (1, ?s)" using c m digit_not_special(3,4) by simp
  have inf: "take 8 ?s \<noteq> ''Infinity''" using c m digit_not_special(6) by auto
  have tw: "takeWhile is_digit ?s = ip"
    using assms(1) by (simp add: takeWhile_append2 dot_not_digit)
  have dw: "dropWhile is_digit ?s = CHR ''.'' # fp"
    using assms(1) by (simp add: dropWhile_append2 dot_not_digit)
  have tf: "takeWhile is_digit fp = fp" using assms(3) by (simp add: takeWhile_eq_all_conv)
  have df: "dropWhile is_digit fp = []" using assms(3) by simp
  show ?thesis
    using assms(2)
    by (simp add: parseFloat_def ws sg inf tw dw tf df read_exponent_def scale10_def
        decimal_val_def del: take_append)
qed

text \<open>Sums and products of numbers that are not negative are not negative, and not NaN.\<close>

lemma jadd_nonneg_nonneg: "jle (Fin 0) a \<Longrightarrow> jle (Fin 0) b \<Longrightarrow> jle (Fin 0) (jadd a b)"
  by (cases a; cases b) (simp_all add: round64_nonneg_jle)

lemma jmul_nonneg_positive: "jle (Fin 0) a \<Longrightarrow> 0 < c \<Longrightarrow> jle (Fin 0) (jmul a (Fin c))"
  by (cases a) (simp_all add: round64_nonneg_jle)

lemma minutes_seconds_ms_nonneg:
  assumes "0 \<le> m" "0 \<le> s"
  shows "jle (Fin 0) (minutes_seconds_ms m s)"
  unfolding minutes_seconds_ms_def
  by (intro jmul_nonneg_positive jadd_nonneg_nonneg round64_nonneg_jle assms) simp_all

lemma seconds_ms_nonneg:
  assumes "0 \<le> s"
  shows "jle (Fin 0) (seconds_ms s)"
  unfolding seconds_ms_def
  by (intro jmul_nonneg_positive round64_nonneg_jle assms) simp

text \<open>
  C1, as the code has it. \<open>parseTime\<close> never fails, and the empty text gives 0. On a
  text of the shape minutes, colon, seconds, point, fraction (all decimal digits, as in
  \<open>M:SS.mmm\<close>) it returns what binary64 arithmetic makes of
  \<open>(minutes * 60 + seconds.fraction) * 1000\<close>; on a text of the shape seconds, point,
  fraction (as in \<open>SS.mmm\<close>) it returns what binary64 arithmetic makes of
  \<open>seconds.fraction * 1000\<close>; both are numbers that are not negative.
\<close>

theorem parseTime_shapes:
  assumes "\<forall>c\<in>set m. is_digit c" "m \<noteq> []" "\<forall>c\<in>set ss. is_digit c" "ss \<noteq> []"
    "\<forall>c\<in>set f. is_digit c"
  shows "parseTime (m @ '':'' @ ss @ ''.'' @ f)
           = Inr (minutes_seconds_ms (of_nat (digits_val m)) (decimal_val ss f))
       \<and> parseTime (ss @ ''.'' @ f) = Inr (seconds_ms (decimal_val ss f))
       \<and> jle (Fin 0) (minutes_seconds_ms (of_nat (digits_val m)) (decimal_val ss f))
       \<and> jle (Fin 0) (seconds_ms (decimal_val ss f))
       \<and> (\<forall>s. parseTime s \<noteq> Inl FormatError)
       \<and> parseTime [] = Inr (Fin 0)"
proof -
  let ?sec = "ss @ CHR ''.'' # f"
  have nc: "CHR '':'' \<notin> set m" "CHR '':'' \<notin> set ?sec"
    using assms(1,3,5) digit_not_special(2) by auto
  have sp2: "split_on CHR '':'' (m @ CHR '':'' # ?sec) = [m, ?sec]"
    using nc by (simp add: split_on_first split_on_no_sep)
  have sp1: "split_on CHR '':'' ?sec = [?sec]"
    using nc by (simp add: split_on_no_sep)
  have a: "parseTime (m @ '':'' @ ss @ ''.'' @ f)
           = Inr (minutes_seconds_ms (of_nat (digits_val m)) (decimal_val ss f))"
    using assms
    by (simp add: parseTime_def lapTimeToMs_def sp2 parseInt10_digits parseFloat_decimal
        minutes_seconds_ms_def)
  have b: "parseTime (ss @ ''.'' @ f) = Inr (seconds_ms (decimal_val ss f))"
    using assms
    by (simp add: parseTime_def lapTimeToMs_def sp1 parseFloat_decimal seconds_ms_def)
  have dv: "0 \<le> decimal_val ss f" by (simp add: decimal_val_def)
  have c: "jle (Fin 0) (minutes_seconds_ms (of_nat (digits_val m)) (decimal_val ss f))"
    by (rule minutes_seconds_ms_nonneg [OF _ dv]) simp
  have d: "jle (Fin 0) (seconds_ms (decimal_val ss f))"
    by (rule seconds_ms_nonneg [OF dv])
  have e: "\<forall>s. parseTime s \<noteq> Inl FormatError" by (simp add: parseTime_def)
  have g: "parseTime [] = Inr (Fin 0)" by (simp add: parseTime_def lapTimeToMs_def)
  show ?thesis using a b c d e g by (intro conjI)
qed

text \<open>
  The binary64 computations for the seconds \<open>23.456\<close> and \<open>20.040\<close>. The sum
  \<open>60 + 20.04\<close> lies halfway between two binary64 values and is rounded to the lower
  one, which has the even significand.
\<close>

lemma seconds_23_456: "round64 (2932 / 125) = Fin (6602277053725147 / 281474976710656)"
  by (rule round64_eqI [where e = 4 and m = 6602277053725147]) simp_all

lemma seconds_23_456_ms:
  "round64 (825284631715643375 / 35184372088832) = Fin 23456"
  by (rule round64_eqI [where e = 14 and m = 6447536185278464]) simp_all

lemma minute_23_456: 
  "round64 (23490775656364507 / 281474976710656) = Fin (5872693914091127 / 70368744177664)"
  by (rule round64_eqI [where e = 6 and m = 5872693914091127]) simp_all

lemma minute_23_456_ms: "round64 (734086739261390875 / 8796093022208) = Fin 83456"
  by (rule round64_eqI [where e = 16 and m = 5735052650479616]) simp_all

lemma seconds_20_040: "round64 (501 / 25) = Fin (2820379266640773 / 140737488355328)"
  by (rule round64_eqI [where e = 4 and m = 5640758533281546]) simp_all

lemma minute_20_040:
  "round64 (11264628567960453 / 140737488355328) = Fin (2816157141990113 / 35184372088832)"
  by (rule round64_eqI [where e = 6 and m = 5632314283980226]) simp_all

lemma minute_20_040_ms:
  "round64 (352019642748764125 / 4398046511104) = Fin (5500306917949439 / 68719476736)"
  by (rule round64_eqI [where e = 16 and m = 5500306917949439]) simp_all

lemmas parse_eval =
  is_digit_def digit_val_def digits_val_def decimal_val_def minutes_seconds_ms_def
  seconds_ms_def seconds_23_456 seconds_23_456_ms minute_23_456 minute_23_456_ms
  seconds_20_040 minute_20_040 minute_20_040_ms

text \<open>
  The two examples of the specification, \<open>1:23.456\<close> and \<open>23.456\<close>, and the text
  \<open>1:20.040\<close>, for which the result is the binary64 value just below 80040
  (\<open>80039.99999999999\<close>).
\<close>

theorem parseTime_shapes_witness:
  "parseTime ''1:23.456'' = Inr (Fin 83456) \<and> parseTime ''23.456'' = Inr (Fin 23456)
   \<and> parseTime ''1:20.040'' = Inr (Fin (5500306917949439 / 68719476736))
   \<and> (5500306917949439 / 68719476736 :: rat) < 80040"
  using parseTime_shapes [of "''1''" "''23''" "''456''"]
    parseTime_shapes [of "''1''" "''20''" "''040''"]
  by (simp add: parse_eval)

text \<open>
  C1 as stated fails: the text \<open>bad\<close> has neither shape and is not rejected, the
  result is NaN; the text \<open>-5\<close> has neither shape and the result is negative.
\<close>

theorem parseTime_counterexample:
  "parseTime ''bad'' = Inr NaN \<and> parseTime ''-5'' = Inr (Fin (- 5000))"
  by (simp add: parseTime_def lapTimeToMs_def parseFloat_def is_ws_def is_digit_def
      digit_val_def digits_val_def scale10_def read_exponent_def)

section \<open>Properties of the lap series\<close>

text \<open>The lap series that the program builds from lap records with finite lap times.\<close>

lemma driver_laps_numbers:
  assumes "finite_lap_times lts" "c \<noteq> NaN" "l \<in> set (driver_laps d avg c lts)"
  shows "finite_number (pl_timeInMs l) \<and> is_number (pl_cumulativeTimeInMs l)"
  using assms
proof (induction lts arbitrary: c)
  case Nil
  then show ?case by simp
next
  case (Cons lt lts)
  have rest: "finite_lap_times lts" using Cons.prems(1) by (simp add: finite_lap_times_def)
  show ?case
  proof (cases "find (\<lambda>t. ld_driverId t = d) (lt_timings lt)")
    case None
    then show ?thesis using Cons.IH [OF rest Cons.prems(2)] Cons.prems(3) by simp
  next
    case (Some t)
    then have "t \<in> set (lt_timings lt)" by (auto simp: find_Some_iff)
    then have f: "finite_number (ld_timeInMs t)"
      using Cons.prems(1) by (simp add: finite_lap_times_def)
    then obtain r where r: "ld_timeInMs t = Fin r" by (rule finite_numberE)
    have n: "is_number (jadd c (ld_timeInMs t))"
      unfolding r by (rule is_number_jadd [OF Cons.prems(2)])
    show ?thesis
      using Cons.IH [OF rest is_number_not_NaN [OF n]] Cons.prems(3) Some f n
      by (auto simp: Let_def)
  qed
qed

lemma number_series_calculateDriverLapData:
  assumes "finite_lap_times lts"
  shows "number_series (calculateDriverLapData lts driverIds)"
  using driver_laps_numbers [OF assms, of "Fin 0"]
  by (auto simp: number_series_def calculateDriverLapData_def)

lemma lead_change_series:
  "calculateDriverLapData lead_change_example [''a'', ''b''] =
     [\<lparr>pd_driverId = ''a'', pd_laps =
         [\<lparr>pl_lap = 1, pl_position = 1, pl_timeInMs = Fin 80000,
           pl_cumulativeTimeInMs = Fin 80000, pl_progressPerLap = Fin 100,
           pl_speedFactor = clamp_speed (round64 (321 / 320))\<rparr>,
          \<lparr>pl_lap = 2, pl_position = 2, pl_timeInMs = Fin 82000,
           pl_cumulativeTimeInMs = Fin 162000, pl_progressPerLap = Fin 100,
           pl_speedFactor = clamp_speed (round64 (321 / 328))\<rparr>]\<rparr>,
      \<lparr>pd_driverId = ''b'', pd_laps =
         [\<lparr>pl_lap = 1, pl_position = 2, pl_timeInMs = Fin 81000,
           pl_cumulativeTimeInMs = Fin 81000, pl_progressPerLap = Fin 100,
           pl_speedFactor = clamp_speed (round64 (107 / 108))\<rparr>,
          \<lparr>pl_lap = 2, pl_position = 1, pl_timeInMs = Fin 78000,
           pl_cumulativeTimeInMs = Fin 159000, pl_progressPerLap = Fin 100,
           pl_speedFactor = clamp_speed (round64 (107 / 104))\<rparr>]\<rparr>]"
  by (simp add: calculateDriverLapData_def lead_change_example_def averageLapTime_def
      lap_time_totals_def totals_step_def Let_def)

lemma lead_change_finite: "finite_lap_times lead_change_example"
  by (simp add: finite_lap_times_def lead_change_example_def)
























section \<open>Properties of the sort\<close>

lemma sort_insert_Nil [simp]: "sort_insert cmp x [] = [x]"
  by (simp add: sort_insert_def)

lemma sort_insert_snoc:
  "sort_insert cmp x (ys @ [y]) =
     (if jlt (cmp x y) (Fin 0) then sort_insert cmp x ys @ [y] else ys @ [y, x])"
  by (simp add: sort_insert_def)

lemma set_sort_insert: "set (sort_insert cmp x ys) = insert x (set ys)"
  by (induction ys rule: rev_induct) (auto simp: sort_insert_snoc)

lemma Array_sort_Nil [simp]: "Array_sort cmp [] = []"
  by (simp add: Array_sort_def)

lemma Array_sort_snoc: "Array_sort cmp (xs @ [x]) = sort_insert cmp x (Array_sort cmp xs)"
  by (simp add: Array_sort_def)

lemma set_Array_sort: "set (Array_sort cmp xs) = set xs"
  by (induction xs rule: rev_induct) (auto simp: Array_sort_snoc set_sort_insert)

lemma length_sort_insert: "length (sort_insert cmp x ys) = Suc (length ys)"
  by (induction ys rule: rev_induct) (auto simp: sort_insert_snoc)

lemma length_Array_sort: "length (Array_sort cmp xs) = length xs"
  by (induction xs rule: rev_induct) (auto simp: Array_sort_snoc length_sort_insert)

text \<open>
  On events whose times are numbers other than NaN, the event comparator is less than 0
  exactly when the first event is earlier.
\<close>

lemma by_time_negative:
  assumes "is_number (ev_timeInMs x)" "is_number (ev_timeInMs y)"
  shows "jlt (by_time x y) (Fin 0) = jlt (ev_timeInMs x) (ev_timeInMs y)"
  unfolding by_time_def by (rule jsub_negative_iff [OF assms])

lemma time_then_category_le:
  "time_then_category a b \<Longrightarrow> is_number (ev_timeInMs a)
   \<Longrightarrow> jle (ev_timeInMs a) (ev_timeInMs b)"
  by (auto simp: time_then_category_def jle_iff is_number_not_NaN)

lemma time_then_category_after:
  assumes "jle (ev_timeInMs a) (ev_timeInMs x)"
    and "category_rank (ev_type a) \<le> category_rank (ev_type x)"
  shows "time_then_category a x"
  using assms by (auto simp: time_then_category_def jle_iff)

lemma sort_insert_by_time:
  assumes "sorted_wrt time_then_category ys"
    and "\<forall>y\<in>set ys. is_number (ev_timeInMs y)
                    \<and> category_rank (ev_type y) \<le> category_rank (ev_type x)"
    and "is_number (ev_timeInMs x)"
  shows "sorted_wrt time_then_category (sort_insert by_time x ys)"
  using assms(1,2)
proof (induction ys rule: rev_induct)
  case Nil
  then show ?case by simp
next
  case (snoc y ys)
  have s: "sorted_wrt time_then_category ys" "\<forall>a\<in>set ys. time_then_category a y"
    using snoc.prems(1) by (simp_all add: sorted_wrt_append)
  have y: "is_number (ev_timeInMs y)"
    "category_rank (ev_type y) \<le> category_rank (ev_type x)"
    using snoc.prems(2) by simp_all
  show ?case
  proof (cases "jlt (ev_timeInMs x) (ev_timeInMs y)")
    case True
    have ih: "sorted_wrt time_then_category (sort_insert by_time x ys)"
      using snoc.IH s(1) snoc.prems(2) by simp
    have "time_then_category x y" using True by (simp add: time_then_category_def)
    then show ?thesis
      using True ih s(2)
      by (simp add: sort_insert_snoc by_time_negative [OF assms(3) y(1)] sorted_wrt_append
          set_sort_insert)
  next
    case False
    then have yx: "jle (ev_timeInMs y) (ev_timeInMs x)"
      using not_jlt [of "ev_timeInMs x" "ev_timeInMs y"] assms(3) y(1)
      by (simp add: is_number_not_NaN)
    have "time_then_category a x" if "a \<in> set (ys @ [y])" for a
    proof -
      have a: "is_number (ev_timeInMs a)"
        "category_rank (ev_type a) \<le> category_rank (ev_type x)"
        using that snoc.prems(2) by auto
      have "jle (ev_timeInMs a) (ev_timeInMs y)"
      proof (cases "a = y")
        case True
        then show ?thesis using y(1) by (simp add: jle_refl is_number_not_NaN)
      next
        case False
        then have "a \<in> set ys" using that by simp
        then show ?thesis using s(2) a(1) by (simp add: time_then_category_le)
      qed
      then have "jle (ev_timeInMs a) (ev_timeInMs x)" using yx by (rule jle_trans)
      then show ?thesis using a(2) by (rule time_then_category_after)
    qed
    then show ?thesis
      using False snoc.prems(1)
      by (simp add: sort_insert_snoc by_time_negative [OF assms(3) y(1)] sorted_wrt_append)
  qed
qed

lemma Array_sort_by_time:
  assumes "sorted_wrt (\<lambda>a b. category_rank (ev_type a) \<le> category_rank (ev_type b)) xs"
    and "\<forall>e\<in>set xs. is_number (ev_timeInMs e)"
  shows "sorted_wrt time_then_category (Array_sort by_time xs)"
  using assms
proof (induction xs rule: rev_induct)
  case Nil
  then show ?case by simp
next
  case (snoc x xs)
  have "sorted_wrt time_then_category (Array_sort by_time xs)"
    using snoc by (simp add: sorted_wrt_append)
  moreover have "\<forall>y\<in>set (Array_sort by_time xs). is_number (ev_timeInMs y)
                    \<and> category_rank (ev_type y) \<le> category_rank (ev_type x)"
    using snoc.prems by (simp add: set_Array_sort sorted_wrt_append)
  moreover have "is_number (ev_timeInMs x)" using snoc.prems(2) by simp
  ultimately show ?case unfolding Array_sort_snoc by (rule sort_insert_by_time)
qed

section \<open>Properties of the event log\<close>

lemma same_type_sorted:
  "\<forall>e\<in>set xs. ev_type e = c
   \<Longrightarrow> sorted_wrt (\<lambda>a b. category_rank (ev_type a) \<le> category_rank (ev_type b)) xs"
  by (induction xs) auto

lemma in_set_map_filter:
  "y \<in> set (List.map_filter f xs) \<longleftrightarrow> (\<exists>x\<in>set xs. f x = Some y)"
  by (induction xs) (auto split: option.splits)

text \<open>
  Lap completions: every event is a \<open>lap_complete\<close>, and its time is a number other
  than NaN when the lap times are finite.
\<close>

lemma lap_complete_step_events:
  assumes "e \<in> set (fst (lap_complete_step t st))"
  shows "e \<in> set (fst st)
       \<or> (ev_type e = lap_complete
          \<and> (\<exists>p. p \<noteq> NaN \<and> ev_timeInMs e = jadd p (ld_timeInMs t)))"
proof -
  obtain evs ct where st: "st = (evs, ct)" by (cases st)
  show ?thesis
    using assms unfolding st lap_complete_step_def
    by (auto simp: Let_def intro!: exI [of _ "or_zero (ct (ld_driverId t))"])
qed

lemma lap_complete_fold_inner:
  assumes "e \<in> set (fst (fold lap_complete_step ts st))"
  shows "e \<in> set (fst st)
       \<or> (ev_type e = lap_complete
          \<and> (\<exists>t\<in>set ts. \<exists>p. p \<noteq> NaN \<and> ev_timeInMs e = jadd p (ld_timeInMs t)))"
  using assms
proof (induction ts arbitrary: st)
  case Nil
  then show ?case by simp
next
  case (Cons t ts)
  from Cons.prems have "e \<in> set (fst (fold lap_complete_step ts (lap_complete_step t st)))"
    by simp
  from Cons.IH [OF this] show ?case
    using lap_complete_step_events [of e t st] by auto
qed

lemma lap_complete_fold_outer:
  assumes "e \<in> set (fst (fold (\<lambda>lapTiming. fold lap_complete_step (lt_timings lapTiming))
                             lts st))"
  shows "e \<in> set (fst st)
       \<or> (ev_type e = lap_complete
          \<and> (\<exists>lt\<in>set lts. \<exists>t\<in>set (lt_timings lt).
                \<exists>p. p \<noteq> NaN \<and> ev_timeInMs e = jadd p (ld_timeInMs t)))"
  using assms
proof (induction lts arbitrary: st)
  case Nil
  then show ?case by simp
next
  case (Cons lt lts)
  from Cons.prems
  have "e \<in> set (fst (fold (\<lambda>lapTiming. fold lap_complete_step (lt_timings lapTiming)) lts
                         (fold lap_complete_step (lt_timings lt) st)))" by simp
  from Cons.IH [OF this] show ?case
    using lap_complete_fold_inner [of e "lt_timings lt" st] by auto
qed

lemma createLapCompleteEvents_events:
  assumes "e \<in> set (createLapCompleteEvents lts)"
  shows "ev_type e = lap_complete
       \<and> (\<exists>lt\<in>set lts. \<exists>t\<in>set (lt_timings lt).
             \<exists>p. p \<noteq> NaN \<and> ev_timeInMs e = jadd p (ld_timeInMs t))"
  using lap_complete_fold_outer [of e lts "([], Map.empty)"] assms
  by (simp add: createLapCompleteEvents_def set_Array_sort)

lemma type_createLapCompleteEvents:
  "\<forall>e\<in>set (createLapCompleteEvents lts). ev_type e = lap_complete"
  using createLapCompleteEvents_events by blast

lemma number_createLapCompleteEvents:
  assumes "finite_lap_times lts"
  shows "\<forall>e\<in>set (createLapCompleteEvents lts). is_number (ev_timeInMs e)"
proof
  fix e
  assume "e \<in> set (createLapCompleteEvents lts)"
  from createLapCompleteEvents_events [OF this] obtain lt t p where
    t: "lt \<in> set lts" "t \<in> set (lt_timings lt)" and p: "p \<noteq> NaN"
    and e: "ev_timeInMs e = jadd p (ld_timeInMs t)"
    by blast
  have "finite_number (ld_timeInMs t)" using assms t by (simp add: finite_lap_times_def)
  then obtain r where "ld_timeInMs t = Fin r" by (rule finite_numberE)
  then show "is_number (ev_timeInMs e)" using e is_number_jadd [OF p] by simp
qed

text \<open>Pit stops.\<close>

lemma pit_stop_event_result:
  assumes "pit_stop_event pd x = Some e"
  shows "ev_type e = pitstop
       \<and> (\<exists>d\<in>set pd. \<exists>l\<in>set (pd_laps d).
             ev_timeInMs e = jsub (pl_cumulativeTimeInMs l) (jmul (pl_timeInMs l) one_tenth))"
proof -
  obtain d where d: "find (\<lambda>d. pd_driverId d = ps_driverId x) pd = Some d"
    using assms by (auto simp: pit_stop_event_def split: option.split_asm)
  obtain l where l: "find (\<lambda>l. pl_lap l = ps_lap x) (pd_laps d) = Some l"
    using assms d by (auto simp: pit_stop_event_def split: option.split_asm)
  have "d \<in> set pd" using d by (auto simp: find_Some_iff)
  moreover have "l \<in> set (pd_laps d)" using l by (auto simp: find_Some_iff)
  moreover have "ev_type e = pitstop"
    "ev_timeInMs e = jsub (pl_cumulativeTimeInMs l) (jmul (pl_timeInMs l) one_tenth)"
    using assms d l by (auto simp: pit_stop_event_def)
  ultimately show ?thesis by blast
qed

lemma type_createPitStopEvents:
  "\<forall>e\<in>set (createPitStopEvents ps pd). ev_type e = pitstop"
  using pit_stop_event_result
  by (auto simp: createPitStopEvents_def set_Array_sort in_set_map_filter)

lemma number_createPitStopEvents:
  assumes "number_series pd"
  shows "\<forall>e\<in>set (createPitStopEvents ps pd). is_number (ev_timeInMs e)"
proof
  fix e
  assume "e \<in> set (createPitStopEvents ps pd)"
  then obtain x where "pit_stop_event pd x = Some e"
    by (auto simp: createPitStopEvents_def set_Array_sort in_set_map_filter)
  from pit_stop_event_result [OF this] obtain d l where
    l: "d \<in> set pd" "l \<in> set (pd_laps d)"
    and e: "ev_timeInMs e = jsub (pl_cumulativeTimeInMs l) (jmul (pl_timeInMs l) one_tenth)"
    by blast
  have n: "finite_number (pl_timeInMs l)" "is_number (pl_cumulativeTimeInMs l)"
    using assms l by (simp_all add: number_series_def)
  have "finite_number (jmul (pl_timeInMs l) one_tenth)"
    unfolding one_tenth_value by (rule finite_number_scaled [OF n(1)]) simp
  then obtain s where "jmul (pl_timeInMs l) one_tenth = Fin s" by (rule finite_numberE)
  then show "is_number (ev_timeInMs e)"
    using e is_number_jsub [OF is_number_not_NaN [OF n(2)]] by simp
qed

text \<open>Overtakes: what the walk adds to the events.\<close>

lemma initial_fold_events: "fst (fold initial_step ts st) = fst st"
proof (induction ts arbitrary: st)
  case Nil
  then show ?case by simp
next
  case (Cons t ts)
  have "fst (initial_step t st) = fst st"
    by (cases st) (auto simp: initial_step_def)
  then show ?case using Cons.IH by simp
qed

lemma overtake_step_events:
  assumes "e \<in> set (fst (overtake_step t st))"
  shows "e \<in> set (fst st)
       \<or> (ev_type e = overtake \<and> ev_lap e = ld_lap t
          \<and> (\<exists>p. p \<noteq> NaN
                \<and> ev_timeInMs e = jsub (jadd p (ld_timeInMs t))
                                        (jmul (ld_timeInMs t) (Fin (1 / 2)))))"
proof -
  obtain evs pp ct where st: "st = (evs, pp, ct)" by (cases st)
  show ?thesis
    using assms unfolding st overtake_step_def
    by (auto simp: Let_def split: option.split_asm if_split_asm
        intro!: exI [of _ "or_zero (ct (ld_driverId t))"])
qed

lemma overtake_fold_inner:
  assumes "e \<in> set (fst (fold overtake_step ts st))"
  shows "e \<in> set (fst st)
       \<or> (ev_type e = overtake
          \<and> (\<exists>t\<in>set ts. ev_lap e = ld_lap t
                \<and> (\<exists>p. p \<noteq> NaN
                      \<and> ev_timeInMs e = jsub (jadd p (ld_timeInMs t))
                                              (jmul (ld_timeInMs t) (Fin (1 / 2))))))"
  using assms
proof (induction ts arbitrary: st)
  case Nil
  then show ?case by simp
next
  case (Cons t ts)
  from Cons.prems have "e \<in> set (fst (fold overtake_step ts (overtake_step t st)))" by simp
  from Cons.IH [OF this] show ?case
    using overtake_step_events [of e t st] by auto
qed

lemma overtake_fold_outer:
  assumes "e \<in> set (fst (fold (\<lambda>lapTiming. fold overtake_step (lt_timings lapTiming)) lts st))"
  shows "e \<in> set (fst st)
       \<or> (ev_type e = overtake
          \<and> (\<exists>lt\<in>set lts. \<exists>t\<in>set (lt_timings lt). ev_lap e = ld_lap t
                \<and> (\<exists>p. p \<noteq> NaN
                      \<and> ev_timeInMs e = jsub (jadd p (ld_timeInMs t))
                                              (jmul (ld_timeInMs t) (Fin (1 / 2))))))"
  using assms
proof (induction lts arbitrary: st)
  case Nil
  then show ?case by simp
next
  case (Cons lt lts)
  from Cons.prems
  have "e \<in> set (fst (fold (\<lambda>lapTiming. fold overtake_step (lt_timings lapTiming)) lts
                         (fold overtake_step (lt_timings lt) st)))" by simp
  from Cons.IH [OF this] show ?case
    using overtake_fold_inner [of e "lt_timings lt" st] by auto
qed

lemma detectOvertakes_result:
  assumes "e \<in> set (detectOvertakes lts)"
  shows "ev_type e = overtake
       \<and> (\<exists>lt\<in>set (tl lts). \<exists>t\<in>set (lt_timings lt). ev_lap e = ld_lap t
              \<and> (\<exists>p. p \<noteq> NaN
                    \<and> ev_timeInMs e = jsub (jadd p (ld_timeInMs t))
                                            (jmul (ld_timeInMs t) (Fin (1 / 2)))))"
proof (cases lts)
  case Nil
  then show ?thesis using assms by (simp add: detectOvertakes_def)
next
  case (Cons first rest)
  let ?st0 = "fold initial_step (lt_timings first) ([], [], Map.empty)"
  have "e \<in> set (fst (fold (\<lambda>lapTiming. fold overtake_step (lt_timings lapTiming)) rest ?st0))"
    using assms Cons by (simp add: detectOvertakes_def Let_def set_Array_sort)
  from overtake_fold_outer [OF this] show ?thesis
    using Cons by (simp add: initial_fold_events)
qed

lemma detectOvertakes_events:
  assumes "e \<in> set (detectOvertakes lts)"
  shows "ev_type e = overtake
       \<and> (\<exists>lt\<in>set (tl lts). \<exists>t\<in>set (lt_timings lt). ev_lap e = ld_lap t)"
  using detectOvertakes_result [OF assms] by blast

lemma type_detectOvertakes: "\<forall>e\<in>set (detectOvertakes lts). ev_type e = overtake"
  using detectOvertakes_events by blast

lemma number_detectOvertakes:
  assumes "finite_lap_times lts"
  shows "\<forall>e\<in>set (detectOvertakes lts). is_number (ev_timeInMs e)"
proof
  fix e
  assume "e \<in> set (detectOvertakes lts)"
  from detectOvertakes_result [OF this] obtain lt t p where
    t: "lt \<in> set (tl lts)" "t \<in> set (lt_timings lt)" and p: "p \<noteq> NaN"
    and e: "ev_timeInMs e = jsub (jadd p (ld_timeInMs t)) (jmul (ld_timeInMs t) (Fin (1 / 2)))"
    by blast
  have "lt \<in> set lts" using t(1) by (cases lts) auto
  then have f: "finite_number (ld_timeInMs t)" using assms t(2) by (simp add: finite_lap_times_def)
  then obtain r where r: "ld_timeInMs t = Fin r" by (rule finite_numberE)
  have "finite_number (jmul (ld_timeInMs t) (Fin (1 / 2)))"
    by (rule finite_number_scaled [OF f]) simp
  then obtain s where s: "jmul (ld_timeInMs t) (Fin (1 / 2)) = Fin s" by (rule finite_numberE)
  have "jadd p (ld_timeInMs t) \<noteq> NaN"
    using is_number_jadd [OF p, of r] r by (simp add: is_number_not_NaN)
  then show "is_number (ev_timeInMs e)" unfolding e s by (rule is_number_jsub)
qed

text \<open>Retirements and the fastest lap.\<close>

lemma dnf_event_result:
  assumes "dnf_event pd x = Some e"
  shows "ev_type e = dnf
       \<and> (\<exists>d\<in>set pd. \<exists>l\<in>set (pd_laps d). ev_timeInMs e = pl_cumulativeTimeInMs l)"
proof -
  obtain driverId' info where x: "x = (driverId', info)" by (cases x)
  obtain d where d: "find (\<lambda>d. pd_driverId d = driverId') pd = Some d"
    using assms x by (auto simp: dnf_event_def split: option.split_asm)
  have ne: "pd_laps d \<noteq> []"
    using assms x d by (auto simp: dnf_event_def split: if_split_asm)
  have "d \<in> set pd" using d by (auto simp: find_Some_iff)
  moreover have "last (pd_laps d) \<in> set (pd_laps d)" using ne by simp
  moreover have "ev_type e = dnf" "ev_timeInMs e = pl_cumulativeTimeInMs (last (pd_laps d))"
    using assms x d ne by (auto simp: dnf_event_def)
  ultimately show ?thesis by blast
qed

lemma type_createDNFEvents:
  "\<forall>e\<in>set (createDNFEvents dnfs pd). ev_type e = dnf"
  using dnf_event_result
  by (auto simp: createDNFEvents_def set_Array_sort in_set_map_filter)

lemma number_createDNFEvents:
  assumes "number_series pd"
  shows "\<forall>e\<in>set (createDNFEvents dnfs pd). is_number (ev_timeInMs e)"
proof
  fix e
  assume "e \<in> set (createDNFEvents dnfs pd)"
  then obtain x where "dnf_event pd x = Some e"
    by (auto simp: createDNFEvents_def set_Array_sort in_set_map_filter)
  from dnf_event_result [OF this] show "is_number (ev_timeInMs e)"
    using assms by (auto simp: number_series_def)
qed

lemma createFastestLapEvent_result:
  assumes "createFastestLapEvent fl pd = Some e"
  shows "ev_type e = fastest_lap
       \<and> (\<exists>d\<in>set pd. \<exists>l\<in>set (pd_laps d). ev_timeInMs e = pl_cumulativeTimeInMs l)"
proof -
  obtain f where f: "fl = Some f"
    using assms by (auto simp: createFastestLapEvent_def split: option.split_asm)
  obtain d where d: "find (\<lambda>d. pd_driverId d = fl_driverId f) pd = Some d"
    using assms f by (auto simp: createFastestLapEvent_def split: option.split_asm)
  obtain l where l: "find (\<lambda>l. pl_lap l = fl_lap f) (pd_laps d) = Some l"
    using assms f d by (auto simp: createFastestLapEvent_def split: option.split_asm)
  have "d \<in> set pd" using d by (auto simp: find_Some_iff)
  moreover have "l \<in> set (pd_laps d)" using l by (auto simp: find_Some_iff)
  moreover have "ev_type e = fastest_lap" "ev_timeInMs e = pl_cumulativeTimeInMs l"
    using assms f d l by (auto simp: createFastestLapEvent_def)
  ultimately show ?thesis by blast
qed

lemma type_fastest_block:
  "\<forall>e\<in>set (case createFastestLapEvent fl pd of None \<Rightarrow> [] | Some ev \<Rightarrow> [ev]).
     ev_type e = fastest_lap"
proof (cases "createFastestLapEvent fl pd")
  case None
  then show ?thesis by simp
next
  case (Some ev)
  then show ?thesis using createFastestLapEvent_result [OF Some] by simp
qed

lemma number_fastest_block:
  assumes "number_series pd"
  shows "\<forall>e\<in>set (case createFastestLapEvent fl pd of None \<Rightarrow> [] | Some ev \<Rightarrow> [ev]).
           is_number (ev_timeInMs e)"
proof (cases "createFastestLapEvent fl pd")
  case None
  then show ?thesis by simp
next
  case (Some ev)
  then show ?thesis
    using createFastestLapEvent_result [OF Some] assms by (auto simp: number_series_def)
qed

lemma rank_blocks:
  assumes "sorted_wrt (\<lambda>a b. category_rank (ev_type a) \<le> category_rank (ev_type b)) ys"
    and "\<forall>e\<in>set xs. ev_type e = c"
    and "\<forall>e\<in>set ys. category_rank c \<le> category_rank (ev_type e)"
  shows "sorted_wrt (\<lambda>a b. category_rank (ev_type a) \<le> category_rank (ev_type b)) (xs @ ys)"
  using assms same_type_sorted [OF assms(2)] by (simp add: sorted_wrt_append)

lemma category_blocks_sorted:
  assumes A: "\<forall>e\<in>set A. ev_type e = lap_complete"
    and B: "\<forall>e\<in>set B. ev_type e = pitstop"
    and C: "\<forall>e\<in>set C. ev_type e = overtake"
    and D: "\<forall>e\<in>set D. ev_type e = dnf"
    and E: "\<forall>e\<in>set E. ev_type e = fastest_lap"
  shows "sorted_wrt (\<lambda>a b. category_rank (ev_type a) \<le> category_rank (ev_type b))
           (A @ B @ C @ D @ E)"
proof -
  let ?R = "\<lambda>a b. category_rank (ev_type a) \<le> category_rank (ev_type b)"
  have sE: "sorted_wrt ?R E" by (rule same_type_sorted [OF E])
  have rE: "\<forall>e\<in>set E. category_rank dnf \<le> category_rank (ev_type e)"
    using E by simp
  have sD: "sorted_wrt ?R (D @ E)"
    by (rule rank_blocks [OF sE D rE])
  have rD: "\<forall>e\<in>set (D @ E). category_rank overtake \<le> category_rank (ev_type e)"
    using D E by auto
  have sC: "sorted_wrt ?R (C @ D @ E)"
    by (rule rank_blocks [OF sD C rD])
  have rC: "\<forall>e\<in>set (C @ D @ E). category_rank pitstop \<le> category_rank (ev_type e)"
    using C D E by auto
  have sB: "sorted_wrt ?R (B @ C @ D @ E)"
    by (rule rank_blocks [OF sC B rC])
  have rB: "\<forall>e\<in>set (B @ C @ D @ E). category_rank lap_complete \<le> category_rank (ev_type e)"
    by simp
  show ?thesis
    by (rule rank_blocks [OF sB A rB])
qed

lemma merged_events_ranked:
  "sorted_wrt (\<lambda>a b. category_rank (ev_type a) \<le> category_rank (ev_type b))
     (merged_events lapTimings pitStops processedLapData dnfs fastestLap)"
  unfolding merged_events_def
  by (rule category_blocks_sorted
      [OF type_createLapCompleteEvents type_createPitStopEvents type_detectOvertakes
        type_createDNFEvents type_fastest_block])

lemma merged_events_numbers:
  assumes "finite_lap_times lapTimings" "number_series processedLapData"
  shows "\<forall>e\<in>set (merged_events lapTimings pitStops processedLapData dnfs fastestLap).
           is_number (ev_timeInMs e)"
  using number_createLapCompleteEvents [OF assms(1)]
    number_createPitStopEvents [OF assms(2), of pitStops]
    number_detectOvertakes [OF assms(1)]
    number_createDNFEvents [OF assms(2), of dnfs]
    number_fastest_block [OF assms(2), of fastestLap]
  unfolding merged_events_def set_append by blast

text \<open>
  C5, as the code has it. When every lap time of the lap records and of the lap series
  is a finite number and no cumulative time of the lap series is NaN, the event log of
  \<open>buildEventTimeline\<close> is sorted by time, and events of equal time stand in the order
  lap_complete, pitstop, overtake, dnf, fastest_lap.
\<close>

theorem event_log_sorted:
  assumes "finite_lap_times lapTimings" "number_series processedLapData"
  shows "sorted_wrt (\<lambda>a b. jle (ev_timeInMs a) (ev_timeInMs b))
           (buildEventTimeline lapTimings pitStops processedLapData dnfs fastestLap)
       \<and> sorted_wrt time_then_category
           (buildEventTimeline lapTimings pitStops processedLapData dnfs fastestLap)"
proof -
  let ?log = "buildEventTimeline lapTimings pitStops processedLapData dnfs fastestLap"
  have n: "\<forall>e\<in>set ?log. is_number (ev_timeInMs e)"
    using merged_events_numbers [OF assms] by (simp add: buildEventTimeline_def set_Array_sort)
  have s: "sorted_wrt time_then_category ?log"
    unfolding buildEventTimeline_def
    by (rule Array_sort_by_time [OF merged_events_ranked merged_events_numbers [OF assms]])
  have "sorted_wrt (\<lambda>a b. jle (ev_timeInMs a) (ev_timeInMs b)) ?log"
  proof (rule sorted_wrt_mono_rel [OF _ s])
    fix a b
    assume "a \<in> set ?log" "b \<in> set ?log" "time_then_category a b"
    then show "jle (ev_timeInMs a) (ev_timeInMs b)"
      using n by (simp add: time_then_category_le)
  qed
  then show ?thesis using s by (rule conjI)
qed

text \<open>A tenth of the 81000 ms of a lap, as the program computes it.\<close>

lemma tenth_of_81000: "jmul (Fin 81000) one_tenth = Fin 8100"
  unfolding one_tenth_value jmul.simps
  by (rule round64_eqI [where e = 12 and m = 8906044184985600]) simp_all

lemmas event_eval =
  buildEventTimeline_def merged_events_def createLapCompleteEvents_def
  createPitStopEvents_def detectOvertakes_def createDNFEvents_def createFastestLapEvent_def
  lap_complete_step_def initial_step_def overtake_step_def pit_stop_event_def dnf_event_def
  Array_sort_def sort_insert_def by_time_def List.map_filter_def no_data_def Let_def

lemma lead_change_log_value:
  "map (\<lambda>e. (ev_timeInMs e, ev_type e, ev_lap e, ev_driverId e)) lead_change_log =
     [(Fin 72900, pitstop, 1, ''b''),
      (Fin 80000, lap_complete, 1, ''a''),
      (Fin 81000, lap_complete, 1, ''b''),
      (Fin 120000, overtake, 2, ''b''),
      (Fin 159000, lap_complete, 2, ''b''),
      (Fin 159000, fastest_lap, 2, ''b''),
      (Fin 162000, lap_complete, 2, ''a''),
      (Fin 162000, dnf, 2, ''a'')]"
  unfolding lead_change_log_def lead_change_series
  by (simp add: lead_change_example_def event_eval tenth_of_81000)

text \<open>
  The event log of the two-lap race with a pit stop, a retirement and a fastest lap:
  sorted by time, and at 159000 and at 162000 the completion of the lap stands before the
  fastest lap and before the retirement.
\<close>

theorem event_log_sorted_witness:
  "sorted_wrt (\<lambda>a b. jle (ev_timeInMs a) (ev_timeInMs b)) lead_change_log
   \<and> sorted_wrt time_then_category lead_change_log
   \<and> map (\<lambda>e. (ev_timeInMs e, ev_type e, ev_lap e, ev_driverId e)) lead_change_log =
       [(Fin 72900, pitstop, 1, ''b''),
        (Fin 80000, lap_complete, 1, ''a''),
        (Fin 81000, lap_complete, 1, ''b''),
        (Fin 120000, overtake, 2, ''b''),
        (Fin 159000, lap_complete, 2, ''b''),
        (Fin 159000, fastest_lap, 2, ''b''),
        (Fin 162000, lap_complete, 2, ''a''),
        (Fin 162000, dnf, 2, ''a'')]"
  using event_log_sorted
    [OF lead_change_finite number_series_calculateDriverLapData [OF lead_change_finite]]
    lead_change_log_value
  unfolding lead_change_log_def by blast

text \<open>
  C5 as stated fails: a time text that is not a number gives the lap time NaN, the
  comparator of the sort is then NaN, and the event log keeps the order 3000, NaN, 1000.
\<close>

theorem event_log_counterexample:
  "map ev_timeInMs (buildEventTimeline nan_lap_example [] [] [] None)
     = [Fin 3000, NaN, Fin 1000]
   \<and> \<not> sorted_wrt (\<lambda>a b. jle (ev_timeInMs a) (ev_timeInMs b))
          (buildEventTimeline nan_lap_example [] [] [] None)"
  by (simp add: nan_lap_example_def event_eval lapTimeToMs_def parseFloat_def is_ws_def
      is_digit_def)

text \<open>
  C8, as the code has it. The first lap record of the input produces no overtake event,
  and an overtake event carries the lap number of a timing of a later lap record. So
  when the timings of the lap records after the first carry lap numbers greater than 1,
  every event of \<open>detectOvertakes\<close> is an overtake with a lap number greater than 1.
\<close>

theorem overtake_laps:
  assumes "\<forall>lt\<in>set (tl lapTimings). \<forall>t\<in>set (lt_timings lt). 1 < ld_lap t"
  shows "\<forall>e\<in>set (detectOvertakes lapTimings). ev_type e = overtake \<and> 1 < ev_lap e"
proof
  fix e
  assume "e \<in> set (detectOvertakes lapTimings)"
  from detectOvertakes_events [OF this] obtain lt t where
    "ev_type e = overtake" "lt \<in> set (tl lapTimings)" "t \<in> set (lt_timings lt)"
    "ev_lap e = ld_lap t"
    by blast
  then show "ev_type e = overtake \<and> 1 < ev_lap e" using assms by simp
qed

lemma lead_change_overtakes:
  "detectOvertakes lead_change_example =
     [\<lparr>ev_type = overtake, ev_lap = 2, ev_timeInMs = Fin 120000, ev_driverId = ''b'',
       ev_data = no_data\<lparr>position := Some 1, previousPosition := Some 2,
                         overtakenDriverId := Some ''a''\<rparr>\<rparr>]"
  by (simp add: detectOvertakes_def lead_change_example_def initial_step_def
      overtake_step_def Array_sort_def sort_insert_def Let_def)

text \<open>The two-lap example, in lap order: one overtake, on lap 2.\<close>

theorem overtake_laps_witness:
  "map ev_lap (detectOvertakes lead_change_example) = [2]
   \<and> 1 < ev_lap (hd (detectOvertakes lead_change_example))"
proof -
  have h: "\<forall>lt\<in>set (tl lead_change_example). \<forall>t\<in>set (lt_timings lt). 1 < ld_lap t"
    by (simp add: lead_change_example_def)
  show ?thesis
    using overtake_laps [OF h] by (simp add: lead_change_overtakes)
qed

text \<open>
  C8 as stated fails: the lap that is skipped is the first record of the input, whatever
  its lap number. With lap 2 before lap 1 in the input, the overtake event carries lap 1.
\<close>

theorem overtake_lap_counterexample:
  "map ev_lap (detectOvertakes reversed_laps_example) = [1]"
  by (simp add: detectOvertakes_def reversed_laps_example_def initial_step_def
      overtake_step_def Array_sort_def sort_insert_def Let_def)

section \<open>Properties of the frame generator\<close>

text \<open>The duration of a race is a number that is not negative, whatever the lap times.\<close>

lemma race_duration_fold_inner:
  "jle (Fin 0) (fst st) \<Longrightarrow> jle (Fin 0) (fst (fold race_duration_step ts st))"
proof (induction ts arbitrary: st)
  case Nil
  then show ?case by simp
next
  case (Cons t ts)
  obtain maxTime driverTimes where st: "st = (maxTime, driverTimes)" by (cases st)
  have "jle (Fin 0) (fst (race_duration_step t st))"
    using Cons.prems jle_jlt_trans jlt_imp_jle
    by (auto simp: race_duration_step_def Let_def st)
  then show ?case using Cons.IH by simp
qed

lemma race_duration_fold_outer:
  "jle (Fin 0) (fst st)
   \<Longrightarrow> jle (Fin 0) (fst (fold (\<lambda>lapTiming. fold race_duration_step (lt_timings lapTiming))
                                lts st))"
proof (induction lts arbitrary: st)
  case Nil
  then show ?case by simp
next
  case (Cons lt lts)
  show ?case
    using Cons.IH [OF race_duration_fold_inner [OF Cons.prems, of "lt_timings lt"]] by simp
qed

lemma calculateRaceDuration_nonneg: "jle (Fin 0) (calculateRaceDuration lts)"
  using race_duration_fold_outer [of "(Fin 0, Map.empty)" lts]
  by (simp add: calculateRaceDuration_def)

section \<open>The frame generator on concrete races\<close>

lemmas timeline_eval =
  generateRaceTimeline_def calculateRaceDuration_def race_duration_step_def
  frames_loop.simps generateFrame_def buildEventTimeline_def merged_events_def
  createLapCompleteEvents_def createPitStopEvents_def createDNFEvents_def detectOvertakes_def
  createFastestLapEvent_def lap_complete_step_def initial_step_def overtake_step_def
  Array_sort_def sort_insert_def no_data_def by_time_def driver_state_def
  interpolatePosition_def calculateLeaderTimes_def leader_step_def createPitStopMap_def
  by_position_def DEFAULT_FRAME_INTERVAL_def frames_with_def List.map_filter_def Let_def

lemma single_lap_series:
  "calculateDriverLapData single_lap_example [''a''] =
     [\<lparr>pd_driverId = ''a'', pd_laps =
         [\<lparr>pl_lap = 1, pl_position = 1, pl_timeInMs = Fin 2300,
           pl_cumulativeTimeInMs = Fin 2300, pl_progressPerLap = Fin 100,
           pl_speedFactor = Fin 1\<rparr>]\<rparr>]"
  by (simp add: calculateDriverLapData_def single_lap_example_def averageLapTime_def
      lap_time_totals_def totals_step_def clamp_speed_def Let_def)

lemma full_lap_series:
  "calculateDriverLapData full_lap_example [''a''] =
     [\<lparr>pd_driverId = ''a'', pd_laps =
         [\<lparr>pl_lap = 1, pl_position = 1, pl_timeInMs = Fin 80300,
           pl_cumulativeTimeInMs = Fin 80300, pl_progressPerLap = Fin 100,
           pl_speedFactor = Fin 1\<rparr>]\<rparr>]"
  by (simp add: calculateDriverLapData_def full_lap_example_def averageLapTime_def
      lap_time_totals_def totals_step_def clamp_speed_def Let_def)

text \<open>
  C2, evaluated. A race of one lap of 80300 ms, sampled every 1000 ms: 81 frames, the
  last one at 80000, and the completion of the lap at 80300 is attached to none of them.
  A race of one lap of 2300 ms: sampled every 500 ms the completion of the lap at 2300
  is attached to no frame; sampled every 100 ms it is attached to three frames.
\<close>

theorem event_attachment_evaluated:
  "map_option (\<lambda>t. (totalDurationMs t, events t, length (frames t),
                     map fr_timeInMs (frames_with full_lap_event t)))
     (full_lap_timeline (Fin 1000))
     = Some (Fin 80300, [full_lap_event], 81, [])
   \<and> map_option (\<lambda>t. (totalDurationMs t, events t, map fr_timeInMs (frames t),
                       map fr_timeInMs (frames_with single_lap_event t)))
       (single_lap_timeline (Fin 500))
     = Some (Fin 2300, [single_lap_event], [Fin 0, Fin 500, Fin 1000, Fin 1500, Fin 2000], [])
   \<and> map_option (\<lambda>t. map fr_timeInMs (frames_with single_lap_event t))
       (single_lap_timeline (Fin 100))
     = Some [Fin 2100, Fin 2200, Fin 2300]"
proof -
  have a: "map_option (\<lambda>t. (totalDurationMs t, events t, length (frames t),
                     map fr_timeInMs (frames_with full_lap_event t)))
     (full_lap_timeline (Fin 1000))
     = Some (Fin 80300, [full_lap_event], 81, [])"
    by (simp add: full_lap_timeline_def full_lap_series full_lap_example_def
        full_lap_event_def timeline_eval)
  have b: "map_option (\<lambda>t. (totalDurationMs t, events t, map fr_timeInMs (frames t),
                       map fr_timeInMs (frames_with single_lap_event t)))
       (single_lap_timeline (Fin 500))
     = Some (Fin 2300, [single_lap_event], [Fin 0, Fin 500, Fin 1000, Fin 1500, Fin 2000], [])"
    by (simp add: single_lap_timeline_def single_lap_series single_lap_example_def
        single_lap_event_def timeline_eval)
  have c: "map_option (\<lambda>t. map fr_timeInMs (frames_with single_lap_event t))
       (single_lap_timeline (Fin 100))
     = Some [Fin 2100, Fin 2200, Fin 2300]"
    by (simp add: single_lap_timeline_def single_lap_series single_lap_example_def
        single_lap_event_def timeline_eval)
  show ?thesis using a b c by (intro conjI)
qed

lemma lead_change_duration: "calculateRaceDuration lead_change_example = Fin 162000"
  by (simp add: calculateRaceDuration_def lead_change_example_def race_duration_step_def
      Let_def)

lemma lead_change_leader_times:
  "calculateLeaderTimes lead_change_example = [1 \<mapsto> Fin 80000, 2 \<mapsto> Fin 158000]"
  by (simp add: calculateLeaderTimes_def lead_change_example_def leader_step_def Let_def)

text \<open>
  C3, evaluated. In the two-lap example the leader of lap 2 is \<open>b\<close>, with a cumulative
  time of 159000, and \<open>a\<close> has 162000. The leader time that \<open>calculateLeaderTimes\<close>
  stores for lap 2 is 158000, the lap time of \<open>a\<close> on lap 1 plus that of \<open>b\<close> on lap 2,
  and the frame at 100000 gives \<open>a\<close> a gap of 4000.
\<close>

theorem gap_to_leader_evaluated:
  "calculateLeaderTimes lead_change_example 2 = Some (Fin 158000)
   \<and> map (\<lambda>p. (pd_driverId p, map pl_cumulativeTimeInMs (pd_laps p)))
        (calculateDriverLapData lead_change_example [''a'', ''b''])
     = [(''a'', [Fin 80000, Fin 162000]), (''b'', [Fin 81000, Fin 159000])]
   \<and> map_option (\<lambda>t. map (\<lambda>f. (fr_timeInMs f,
                                  map (\<lambda>d. (ds_driverId d, ds_position d, ds_lap d,
                                             ds_gapToLeader d)) (fr_drivers f)))
                           (frames t))
       (lead_change_timeline (Fin 100000))
     = Some [(Fin 0, [(''a'', 1, 1, Fin 0), (''b'', 2, 1, Fin 1000)]),
             (Fin 100000, [(''b'', 1, 2, Fin 0), (''a'', 2, 2, Fin 4000)])]"
  by (simp add: lead_change_timeline_def lead_change_series lead_change_duration
      lead_change_leader_times generateRaceTimeline_def frames_loop.simps generateFrame_def
      driver_state_def interpolatePosition_def by_position_def Array_sort_def sort_insert_def
      createPitStopMap_def Let_def)

text \<open>
  What the sampling loop returns, when it returns: the frames of times that are not after
  the duration, the first of them at the start time.
\<close>

lemma frames_loop_result:
  assumes "frames_loop frame_at duration frameInterval timeMs acc = Some r"
  shows "\<exists>fs. r = acc @ fs
            \<and> (\<forall>x\<in>set fs. \<exists>t. x = frame_at t \<and> jle t duration)
            \<and> (jle timeMs duration \<longrightarrow> fs \<noteq> [] \<and> hd fs = frame_at timeMs)"
proof (rule frames_loop.raw_induct
    [where P = "\<lambda>f d s t a y. \<exists>fs. y = a @ fs
                   \<and> (\<forall>x\<in>set fs. \<exists>u. x = f u \<and> jle u d)
                   \<and> (jle t d \<longrightarrow> fs \<noteq> [] \<and> hd fs = f t)",
      OF _ assms])
  fix loop :: "(jsnum \<Rightarrow> AnimationFrame) \<Rightarrow> jsnum \<Rightarrow> jsnum \<Rightarrow> jsnum \<Rightarrow> AnimationFrame list
                 \<Rightarrow> AnimationFrame list option"
    and f d s t a y
  assume ih: "\<And>d s t a b y. loop d s t a b = Some y
                \<Longrightarrow> \<exists>fs. y = b @ fs
                       \<and> (\<forall>x\<in>set fs. \<exists>u. x = d u \<and> jle u s)
                       \<and> (jle a s \<longrightarrow> fs \<noteq> [] \<and> hd fs = d a)"
    and body: "(if jle t d then loop f d s (jadd t s) (a @ [f t]) else Some a) = Some y"
  show "\<exists>fs. y = a @ fs
            \<and> (\<forall>x\<in>set fs. \<exists>u. x = f u \<and> jle u d)
            \<and> (jle t d \<longrightarrow> fs \<noteq> [] \<and> hd fs = f t)"
  proof (cases "jle t d")
    case False
    then have "y = a" using body by simp
    then show ?thesis using False by simp
  next
    case True
    then have "loop f d s (jadd t s) (a @ [f t]) = Some y" using body by simp
    from ih [OF this] obtain fs where fs: "y = (a @ [f t]) @ fs"
      "\<forall>x\<in>set fs. \<exists>u. x = f u \<and> jle u d"
      by blast
    have "y = a @ (f t # fs)" using fs(1) by simp
    moreover have "\<forall>x\<in>set (f t # fs). \<exists>u. x = f u \<and> jle u d"
      using fs(2) True by auto
    ultimately show ?thesis by (intro exI [of _ "f t # fs"]) simp
  qed
qed

lemma generateRaceTimeline_sampled:
  assumes "generateRaceTimeline m ds lts pld ps evs dnfs fl frameInterval = Some tline"
  shows "sampled_timeline tline \<and> totalDurationMs tline = calculateRaceDuration lts
       \<and> fr_timeInMs (hd (frames tline)) = Fin 0"
proof -
  let ?frame = "\<lambda>timeMs. generateFrame timeMs ds pld (createPitStopMap ps) evs dnfs fl
                            (calculateLeaderTimes lts) (totalLaps m)"
  obtain fs where loop: "frames_loop ?frame (calculateRaceDuration lts) frameInterval (Fin 0) []
                         = Some fs"
    and t: "tline = \<lparr>metadata = m, drivers = ds, totalDurationMs = calculateRaceDuration lts,
                     frames = fs, events = evs\<rparr>"
    using assms by (auto simp: generateRaceTimeline_def Let_def)
  from frames_loop_result [OF loop] calculateRaceDuration_nonneg [of lts]
  have fs: "\<forall>x\<in>set fs. \<exists>t. x = ?frame t \<and> jle t (calculateRaceDuration lts)"
    "fs \<noteq> []" "hd fs = ?frame (Fin 0)"
    by auto
  have "\<forall>x\<in>set fs. jle (fr_timeInMs x) (calculateRaceDuration lts)"
  proof
    fix x
    assume "x \<in> set fs"
    then obtain t where "x = ?frame t" "jle t (calculateRaceDuration lts)" using fs(1) by blast
    then show "jle (fr_timeInMs x) (calculateRaceDuration lts)"
      by (simp add: generateFrame_def Let_def)
  qed
  moreover have "fr_timeInMs (hd fs) = Fin 0" using fs(3) by (simp add: generateFrame_def Let_def)
  ultimately show ?thesis
    using fs(2) calculateRaceDuration_nonneg [of lts]
    by (simp add: sampled_timeline_def t list_all_iff)
qed

section \<open>Properties of the playback engine\<close>

lemma perform_None_clock:
  assumes "currentTimeMs (playbackState h) = Fin 0" "currentFrameIndex (playbackState h) = 0"
  shows "currentTimeMs (playbackState (perform None h c)) = Fin 0
       \<and> currentFrameIndex (playbackState (perform None h c)) = 0"
  using assms
  by (cases c)
    (simp_all add: play_def pause_def restart_def setSpeed_def seekTo_def seekToPercent_def
      animate_def render_def)

lemma run_None_clock:
  assumes "currentTimeMs (playbackState h) = Fin 0" "currentFrameIndex (playbackState h) = 0"
  shows "currentTimeMs (playbackState (run None cmds h)) = Fin 0
       \<and> currentFrameIndex (playbackState (run None cmds h)) = 0"
  using assms
proof (induction cmds arbitrary: h)
  case Nil
  then show ?case by (simp add: run_def)
next
  case (Cons c cmds)
  have "run None (c # cmds) h = run None cmds (perform None h c)" by (simp add: run_def)
  then show ?case using Cons.IH perform_None_clock [OF Cons.prems] by simp
qed

text \<open>
  C4, as the code has it. Without a timeline, \<open>seekTo\<close>, \<open>seekToPercent\<close> and the
  animation tick leave every state of the hook as it is, and \<open>pause\<close>, \<open>restart\<close> and a
  render leave the initial state as it is. \<open>play\<close> sets \<open>isPlaying\<close>, \<open>setSpeed\<close> sets
  the speed, and \<open>restart\<close> sets the speed of the last render; none of the three looks at
  the timeline. After any sequence of operations, renders and ticks from the initial
  state, the clock and the frame index are still 0.
\<close>

theorem no_timeline_operations:
  "perform None h (SeekTo ms) = h
   \<and> perform None h (SeekToPercent pct) = h
   \<and> perform None h (Tick timestamp) = h
   \<and> perform None initial_hook Pause = initial_hook
   \<and> perform None initial_hook Restart = initial_hook
   \<and> perform None initial_hook Render = initial_hook
   \<and> playbackState (perform None h Play) = (playbackState h)\<lparr>isPlaying := True\<rparr>
   \<and> playbackState (perform None h (SetSpeed v)) = (playbackState h)\<lparr>speed := v\<rparr>
   \<and> playbackState (perform None h Restart)
       = \<lparr>isPlaying = False, currentTimeMs = Fin 0, speed = speed (rendered h),
          currentFrameIndex = 0\<rparr>
   \<and> currentTimeMs (playbackState (run None cmds initial_hook)) = Fin 0
   \<and> currentFrameIndex (playbackState (run None cmds initial_hook)) = 0"
  using run_None_clock [of initial_hook cmds]
  by (simp add: seekTo_def seekToPercent_def animate_def pause_def restart_def play_def
      setSpeed_def render_def initial_hook_def initial_playback_def)

text \<open>
  C4 as stated fails: without a timeline \<open>play\<close> sets \<open>isPlaying\<close> and \<open>setSpeed\<close>
  changes the speed, so the state does not stay the initial state. A \<open>restart\<close> right
  after \<open>setSpeed(2)\<close> sets the speed back to 1, the speed of the last render; after a
  render it keeps the 2.
\<close>

theorem no_timeline_counterexample:
  "isPlaying (playbackState (run None [Play] initial_hook))
   \<and> speed (playbackState (run None [SetSpeed (Fin 2)] initial_hook)) = Fin 2
   \<and> playbackState (run None [Play] initial_hook) \<noteq> initial_playback
   \<and> playbackState (run None [SetSpeed (Fin 2)] initial_hook) \<noteq> initial_playback
   \<and> speed (playbackState (run None [SetSpeed (Fin 2), Restart] initial_hook)) = Fin 1
   \<and> speed (playbackState (run None [SetSpeed (Fin 2), Render, Restart] initial_hook)) = Fin 2"
  by (simp add: run_def play_def setSpeed_def restart_def render_def initial_hook_def
      initial_playback_def)

text \<open>The frame index that \<open>findFrameIndex\<close> returns.\<close>

lemma first_after_None:
  "first_after c i fs = None \<Longrightarrow> \<forall>f\<in>set fs. \<not> jlt c (fr_timeInMs f)"
  by (induction fs arbitrary: i) (auto split: if_split_asm)

lemma first_after_Some:
  assumes "first_after c i fs = Some k"
  shows "i \<le> k \<and> k - i < length fs \<and> jlt c (fr_timeInMs (fs ! (k - i)))
       \<and> (\<forall>f\<in>set (take (k - i) fs). \<not> jlt c (fr_timeInMs f))"
  using assms
proof (induction fs arbitrary: i)
  case Nil
  then show ?case by simp
next
  case (Cons f fs)
  show ?case
  proof (cases "jlt c (fr_timeInMs f)")
    case True
    then show ?thesis using Cons.prems by simp
  next
    case False
    then have r: "first_after c (Suc i) fs = Some k" using Cons.prems by simp
    from Cons.IH [OF r] have ih: "Suc i \<le> k" "k - Suc i < length fs"
      "jlt c (fr_timeInMs (fs ! (k - Suc i)))"
      "\<forall>f\<in>set (take (k - Suc i) fs). \<not> jlt c (fr_timeInMs f)"
      by simp_all
    have k: "k - i = Suc (k - Suc i)" using ih(1) by simp
    show ?thesis using ih False unfolding k by simp
  qed
qed

lemma findFrameIndex_current:
  assumes "sampled_timeline tline" "jle (Fin 0) c"
  shows "current_frame tline c (findFrameIndex (Some tline) c)"
proof -
  let ?fs = "frames tline"
  have ne: "?fs \<noteq> []" and first: "jle (fr_timeInMs (hd ?fs)) (Fin 0)"
    and nn: "\<forall>f\<in>set ?fs. fr_timeInMs f \<noteq> NaN"
    using assms(1) jle_not_NaN by (auto simp: sampled_timeline_def list_all_iff)
  have c: "c \<noteq> NaN" using assms(2) jle_not_NaN by blast
  have le: "jle (fr_timeInMs f) c" if "f \<in> set ?fs" "\<not> jlt c (fr_timeInMs f)" for f
    using that nn c not_jlt [of c "fr_timeInMs f"] by simp
  have hd_le: "\<not> jlt c (fr_timeInMs (hd ?fs))"
  proof
    assume "jlt c (fr_timeInMs (hd ?fs))"
    then have "jlt c (Fin 0)" using first by (rule jlt_jle_trans)
    then have "jlt (Fin 0) (Fin 0)" using assms(2) by (rule jle_jlt_trans [rotated])
    then show False by simp
  qed
  show ?thesis
  proof (cases "first_after c 0 ?fs")
    case None
    have "\<forall>f\<in>set ?fs. jle (fr_timeInMs f) c"
      using first_after_None [OF None] le by blast
    moreover have "Suc (nat (int (length ?fs) - 1)) = length ?fs"
      using ne by (cases ?fs) auto
    ultimately show ?thesis
      using None ne
      by (simp add: current_frame_def findFrameIndex_def list_all_iff)
  next
    case (Some k)
    from first_after_Some [OF Some] have k: "k < length ?fs" "jlt c (fr_timeInMs (?fs ! k))"
      "\<forall>f\<in>set (take k ?fs). \<not> jlt c (fr_timeInMs f)"
      by simp_all
    have "k \<noteq> 0" using k(2) hd_le ne by (cases k) (auto simp: hd_conv_nth)
    then obtain j where j: "k = Suc j" by (cases k) auto
    have idx: "findFrameIndex (Some tline) c = int j"
      using Some ne j by (simp add: findFrameIndex_def)
    have "\<forall>f\<in>set (take (Suc j) ?fs). jle (fr_timeInMs f) c"
      using k(3) le j by (meson in_set_takeD)
    then show ?thesis
      using k(1,2) j unfolding idx current_frame_def by (simp add: list_all_iff)
  qed
qed

lemma last_frame_current:
  assumes "sampled_timeline tline"
  shows "current_frame tline (totalDurationMs tline) (int (length (frames tline)) - 1)"
proof -
  have ne: "frames tline \<noteq> []"
    and le: "\<forall>f\<in>set (frames tline). jle (fr_timeInMs f) (totalDurationMs tline)"
    using assms by (simp_all add: sampled_timeline_def list_all_iff)
  have "Suc (nat (int (length (frames tline)) - 1)) = length (frames tline)"
    using ne by (cases "frames tline") auto
  then show ?thesis using ne le by (simp add: current_frame_def list_all_iff)
qed

lemma clamp_range:
  assumes "ms \<noteq> NaN" "jle (Fin 0) duration"
  shows "jle (Fin 0) (Math_max (Fin 0) (Math_min ms duration))"
    and "jle (Math_max (Fin 0) (Math_min ms duration)) duration"
    and "Math_max (Fin 0) (Math_min ms duration)
           = (if jlt ms (Fin 0) then Fin 0 else if jlt duration ms then duration else ms)"
  using assms by (cases ms; cases duration; auto)+

text \<open>
  C9, as the code has it. With a timeline of the frame generator loaded, \<open>seekTo\<close> with
  a target other than NaN sets the clock to the target clamped into the interval from 0
  to the duration, sets the frame index to the frame that is current at that time, and
  leaves \<open>isPlaying\<close> and the speed as they are. A tick whose new time reaches the
  duration sets the clock to the duration, the frame index to the last frame, which is
  the current one at that time, and \<open>isPlaying\<close> to false; any other tick sets the
  clock to the new time and leaves \<open>isPlaying\<close> as it is.
\<close>

theorem seek_and_end_of_playback:
  assumes "sampled_timeline tline" "ms \<noteq> NaN"
  shows "jle (Fin 0) (currentTimeMs (seekTo (Some tline) ms prev))
       \<and> jle (currentTimeMs (seekTo (Some tline) ms prev)) (totalDurationMs tline)
       \<and> currentTimeMs (seekTo (Some tline) ms prev)
           = (if jlt ms (Fin 0) then Fin 0
              else if jlt (totalDurationMs tline) ms then totalDurationMs tline else ms)
       \<and> current_frame tline (currentTimeMs (seekTo (Some tline) ms prev))
           (currentFrameIndex (seekTo (Some tline) ms prev))
       \<and> isPlaying (seekTo (Some tline) ms prev) = isPlaying prev
       \<and> speed (seekTo (Some tline) ms prev) = speed prev
       \<and> playbackState (animate (Some tline) timestamp h)
           = (if jle (totalDurationMs tline) (advanced_time timestamp h)
              then (playbackState h)\<lparr>isPlaying := False, currentTimeMs := totalDurationMs tline,
                     currentFrameIndex := int (length (frames tline)) - 1\<rparr>
              else (playbackState h)\<lparr>currentTimeMs := advanced_time timestamp h,
                     currentFrameIndex :=
                       findFrameIndex (Some tline) (advanced_time timestamp h)\<rparr>)
       \<and> current_frame tline (totalDurationMs tline) (int (length (frames tline)) - 1)"
proof -
  let ?c = "Math_max (Fin 0) (Math_min ms (totalDurationMs tline))"
  have dur: "jle (Fin 0) (totalDurationMs tline)"
    using assms(1) by (simp add: sampled_timeline_def)
  have s: "seekTo (Some tline) ms prev
           = prev\<lparr>currentTimeMs := ?c, currentFrameIndex := findFrameIndex (Some tline) ?c\<rparr>"
    by (simp add: seekTo_def Let_def)
  have r: "jle (Fin 0) ?c" "jle ?c (totalDurationMs tline)"
    "?c = (if jlt ms (Fin 0) then Fin 0
           else if jlt (totalDurationMs tline) ms then totalDurationMs tline else ms)"
    by (rule clamp_range [OF assms(2) dur])+
  have f: "current_frame tline ?c (findFrameIndex (Some tline) ?c)"
    by (rule findFrameIndex_current [OF assms(1) r(1)])
  have a: "playbackState (animate (Some tline) timestamp h)
           = (if jle (totalDurationMs tline) (advanced_time timestamp h)
              then (playbackState h)\<lparr>isPlaying := False, currentTimeMs := totalDurationMs tline,
                     currentFrameIndex := int (length (frames tline)) - 1\<rparr>
              else (playbackState h)\<lparr>currentTimeMs := advanced_time timestamp h,
                     currentFrameIndex :=
                       findFrameIndex (Some tline) (advanced_time timestamp h)\<rparr>)"
    by (simp add: animate_def Let_def)
  have 1: "jle (Fin 0) (currentTimeMs (seekTo (Some tline) ms prev))"
    unfolding s using r(1) by simp
  have 2: "jle (currentTimeMs (seekTo (Some tline) ms prev)) (totalDurationMs tline)"
    unfolding s using r(2) by simp
  have 3: "currentTimeMs (seekTo (Some tline) ms prev)
           = (if jlt ms (Fin 0) then Fin 0
              else if jlt (totalDurationMs tline) ms then totalDurationMs tline else ms)"
    unfolding s using r(3) by simp
  have 4: "current_frame tline (currentTimeMs (seekTo (Some tline) ms prev))
             (currentFrameIndex (seekTo (Some tline) ms prev))"
    unfolding s using f by simp
  have 5: "isPlaying (seekTo (Some tline) ms prev) = isPlaying prev"
    "speed (seekTo (Some tline) ms prev) = speed prev"
    unfolding s by simp_all
  show ?thesis using 1 2 3 4 5 a last_frame_current [OF assms(1)] by (intro conjI)
qed

lemma example_timeline_sampled: "sampled_timeline example_timeline"
  by (simp add: sampled_timeline_def example_timeline_def)

text \<open>
  On the timeline with frames at 0, 500 and 1000: \<open>seekTo(-100)\<close> while playing sets the
  clock to 0 and the frame index to 0, \<open>seekTo(700)\<close> sets the clock to 700 and the frame
  index to 1, and the tick from 900 that advances the clock by 320 stops at 1000, on the
  last frame.
\<close>

theorem seek_and_end_of_playback_witness:
  "seekTo (Some example_timeline) (Fin (- 100))
       \<lparr>isPlaying = True, currentTimeMs = Fin 700, speed = Fin 1, currentFrameIndex = 1\<rparr>
     = \<lparr>isPlaying = True, currentTimeMs = Fin 0, speed = Fin 1, currentFrameIndex = 0\<rparr>
   \<and> seekTo (Some example_timeline) (Fin 700)
       \<lparr>isPlaying = True, currentTimeMs = Fin 0, speed = Fin 1, currentFrameIndex = 0\<rparr>
     = \<lparr>isPlaying = True, currentTimeMs = Fin 700, speed = Fin 1, currentFrameIndex = 1\<rparr>
   \<and> current_frame example_timeline (Fin 700) 1
   \<and> playbackState (animate (Some example_timeline) (Fin 16)
         \<lparr>playbackState = \<lparr>isPlaying = True, currentTimeMs = Fin 900, speed = Fin 1,
                            currentFrameIndex = 1\<rparr>,
          rendered = \<lparr>isPlaying = True, currentTimeMs = Fin 900, speed = Fin 1,
                       currentFrameIndex = 1\<rparr>,
          lastTimestampRef = Some (Fin 0)\<rparr>)
       = \<lparr>isPlaying = False, currentTimeMs = Fin 1000, speed = Fin 1, currentFrameIndex = 2\<rparr>"
  using seek_and_end_of_playback [OF example_timeline_sampled, of "Fin (- 100)"
      "\<lparr>isPlaying = True, currentTimeMs = Fin 700, speed = Fin 1, currentFrameIndex = 1\<rparr>"
      "Fin 16"
      "\<lparr>playbackState = \<lparr>isPlaying = True, currentTimeMs = Fin 900, speed = Fin 1,
                            currentFrameIndex = 1\<rparr>,
          rendered = \<lparr>isPlaying = True, currentTimeMs = Fin 900, speed = Fin 1,
                       currentFrameIndex = 1\<rparr>,
          lastTimestampRef = Some (Fin 0)\<rparr>"]
    seek_and_end_of_playback [OF example_timeline_sampled, of "Fin 700"
      "\<lparr>isPlaying = True, currentTimeMs = Fin 0, speed = Fin 1, currentFrameIndex = 0\<rparr>"]
  by (simp add: example_timeline_def seekTo_def animate_def advanced_time_def
      findFrameIndex_def current_frame_def Let_def)

text \<open>
  C9 as stated fails: a target of NaN is not clamped. \<open>seekTo(NaN)\<close> sets the clock to
  NaN, which is not in the interval from 0 to the duration, and the frame index to the
  last frame.
\<close>

theorem seek_counterexample:
  "seekTo (Some example_timeline) NaN initial_playback
     = \<lparr>isPlaying = False, currentTimeMs = NaN, speed = Fin 1, currentFrameIndex = 2\<rparr>
   \<and> \<not> jle (Fin 0) (currentTimeMs (seekTo (Some example_timeline) NaN initial_playback))
   \<and> \<not> jle (currentTimeMs (seekTo (Some example_timeline) NaN initial_playback))
          (totalDurationMs example_timeline)"
  by (simp add: example_timeline_def seekTo_def findFrameIndex_def initial_playback_def
      Let_def)

text \<open>
  C10. With or without a timeline, \<open>setSpeed\<close> changes the speed and nothing else:
  \<open>isPlaying\<close>, the clock, the frame index, the state of the last render and the
  timestamp of the last tick stay.
\<close>

theorem setSpeed_only_speed:
  "isPlaying (playbackState (perform timeline h (SetSpeed v))) = isPlaying (playbackState h)
   \<and> currentTimeMs (playbackState (perform timeline h (SetSpeed v)))
       = currentTimeMs (playbackState h)
   \<and> currentFrameIndex (playbackState (perform timeline h (SetSpeed v)))
       = currentFrameIndex (playbackState h)
   \<and> speed (playbackState (perform timeline h (SetSpeed v))) = v
   \<and> lastTimestampRef (perform timeline h (SetSpeed v)) = lastTimestampRef h
   \<and> rendered (perform timeline h (SetSpeed v)) = rendered h
   \<and> isPlaying (setSpeed v prev) = isPlaying prev
   \<and> currentTimeMs (setSpeed v prev) = currentTimeMs prev
   \<and> currentFrameIndex (setSpeed v prev) = currentFrameIndex prev"
  by (simp add: setSpeed_def)

end
